theory Spec2Isabelle
  imports
    Main
    "HOL-Library.Char_ord"
    "HOL-Library.List_Lexorder"
    "HOL-Library.Product_Lexorder"
    "HOL-Library.Multiset"
    "HOL-Library.AList"
begin

section \<open>The todo server: a JSON-backed task list\<close>

text \<open>
  The program keeps two JSON files: the active task list at \<^verbatim>\<open>DATA_PATH\<close> and the archive
  \<^verbatim>\<open>todo_archive.json\<close> beside it. Every tool loads the whole list, works on the
  loaded dictionaries and, when it changes something, writes the whole list back.

  The model follows that shape. A value read from a file is a \<open>json\<close> value; a Python
  exception is an \<open>error\<close>; a tool is a function from the two files to its outcome and the
  two files afterwards.
\<close>

subsection \<open>Exceptions\<close>

datatype error =
    TypeError
  | AttributeError
  | PermissionError
  | UnicodeDecodeError
  | JSONDecodeError
  | FileNotFoundError
  | ValidationError

subsection \<open>Values loaded from a JSON file\<close>

text \<open>
  What \<^verbatim>\<open>json.load\<close> returns: \<^verbatim>\<open>None\<close>, a bool, an int, a str, a list or a dict with
  string keys. A dict keeps its insertion order, so it is an association list; its keys
  are looked up with \<open>map_of\<close> and assigned with \<open>AList.update\<close>, which keeps the position of
  a key that is already there and appends a new one, as a Python dict does. JSON numbers
  with a fraction or an exponent (Python floats) are outside the model: the program never
  writes one.
\<close>

datatype json =
    JNull
  | JBool bool
  | JInt int
  | JStr string
  | JList "json list"
  | JObj "(string \<times> json) list"

subsection \<open>The two files\<close>

text \<open>
  A path is in one of five states, told apart by what \<^verbatim>\<open>os.path.exists\<close>, \<^verbatim>\<open>open\<close> and
  \<^verbatim>\<open>json.load\<close> do on it:
  \<^item> \<open>Missing\<close>: nothing is there;
  \<^item> \<open>Unreadable\<close>: the path exists, and \<^verbatim>\<open>open(path, "r")\<close> raises an \<^verbatim>\<open>OSError\<close> other
    than \<^verbatim>\<open>FileNotFoundError\<close> (no read permission, or the path is a directory);
  \<^item> \<open>Undecodable\<close>: the file opens, and its bytes are not UTF-8, so that reading it raises
    \<^verbatim>\<open>UnicodeDecodeError\<close>;
  \<^item> \<open>Malformed\<close>: the text is not JSON (the empty file included): \<^verbatim>\<open>json.load\<close> raises
    \<^verbatim>\<open>JSONDecodeError\<close>;
  \<^item> \<open>Content v\<close>: \<^verbatim>\<open>json.load\<close> returns \<open>v\<close>.
\<close>

datatype disk_file = Missing | Unreadable | Undecodable | Malformed | Content json

record fs =
  data_file :: disk_file
  archive_file :: disk_file

definition os_path_exists :: "disk_file \<Rightarrow> bool" where
  "os_path_exists f = (f \<noteq> Missing)"

text \<open>\<^verbatim>\<open>with open(path, "r", encoding="utf-8") as f: json.load(f)\<close>\<close>

fun json_load :: "disk_file \<Rightarrow> error + json" where
  "json_load Missing = Inl FileNotFoundError"
| "json_load Unreadable = Inl PermissionError"
| "json_load Undecodable = Inl UnicodeDecodeError"
| "json_load Malformed = Inl JSONDecodeError"
| "json_load (Content v) = Inr v"

text \<open>
  \<^verbatim>\<open>json.dump(tasks, f, indent=2, default=str)\<close> into the file opened for writing. A write is
  only reached after the same path was found missing or was read, so it succeeds; what is
  read back afterwards is the list that was written.
\<close>

definition json_dump :: "json list \<Rightarrow> disk_file" where
  "json_dump tasks = Content (JList tasks)"

subsection \<open>Loading and saving the active list\<close>

definition load_tasks :: "fs \<Rightarrow> error + json list" where
  "load_tasks s =
     (if \<not> os_path_exists (data_file s) then Inr []
      else case json_load (data_file s) of
             Inr data \<Rightarrow> (case data of JList xs \<Rightarrow> Inr xs | _ \<Rightarrow> Inr [])
           | Inl e \<Rightarrow> (if e = JSONDecodeError \<or> e = FileNotFoundError then Inr [] else Inl e))"

definition save_tasks :: "json list \<Rightarrow> fs \<Rightarrow> fs" where
  "save_tasks tasks s = s\<lparr>data_file := json_dump tasks\<rparr>"

subsection \<open>Python operations on loaded values\<close>

text \<open>
  \<^verbatim>\<open>t.get(key)\<close>: the value under the key, or nothing; on anything that is not a dict
  the attribute \<^verbatim>\<open>get\<close> does not exist. The caller supplies the default.
\<close>

fun dict_get :: "json \<Rightarrow> string \<Rightarrow> error + json option" where
  "dict_get (JObj kvs) k = Inr (map_of kvs k)"
| "dict_get _ k = Inl AttributeError"

definition or_default :: "'a \<Rightarrow> 'a option \<Rightarrow> 'a" where
  "or_default d v = (case v of None \<Rightarrow> d | Some x \<Rightarrow> x)"

text \<open>\<^verbatim>\<open>t[key] = value\<close>\<close>

fun dict_set :: "json \<Rightarrow> string \<Rightarrow> json \<Rightarrow> error + json" where
  "dict_set (JObj kvs) k v = Inr (JObj (AList.update k v kvs))"
| "dict_set _ k v = Inl TypeError"

text \<open>Truth value of a loaded value, as \<^verbatim>\<open>not\<close> and \<^verbatim>\<open>if\<close> take it.\<close>

fun truthy :: "json \<Rightarrow> bool" where
  "truthy JNull = False"
| "truthy (JBool b) = b"
| "truthy (JInt n) = (n \<noteq> 0)"
| "truthy (JStr s) = (s \<noteq> [])"
| "truthy (JList xs) = (xs \<noteq> [])"
| "truthy (JObj kvs) = (kvs \<noteq> [])"

text \<open>
  \<^verbatim>\<open>a == b\<close> on loaded values: a bool equals the int of the same value, lists are equal
  element by element, dicts when they have the same keys with equal values, in any
  order.
\<close>

fun py_eq :: "json \<Rightarrow> json \<Rightarrow> bool"
and py_eq_list :: "json list \<Rightarrow> json list \<Rightarrow> bool"
and py_eq_items :: "(string \<times> json) list \<Rightarrow> (string \<times> json) list \<Rightarrow> bool"
and py_eq_item :: "string \<Rightarrow> json \<Rightarrow> (string \<times> json) list \<Rightarrow> bool"
where
  "py_eq JNull JNull = True"
| "py_eq (JBool x) (JBool y) = (x = y)"
| "py_eq (JBool x) (JInt n) = (of_bool x = n)"
| "py_eq (JInt m) (JBool y) = (m = of_bool y)"
| "py_eq (JInt m) (JInt n) = (m = n)"
| "py_eq (JStr s) (JStr t) = (s = t)"
| "py_eq (JList xs) (JList ys) = py_eq_list xs ys"
| "py_eq (JObj xs) (JObj ys) = (length xs = length ys \<and> py_eq_items xs ys)"
| "py_eq _ _ = False"
| "py_eq_list [] [] = True"
| "py_eq_list (x # xs) (y # ys) = (py_eq x y \<and> py_eq_list xs ys)"
| "py_eq_list _ _ = False"
| "py_eq_items [] ys = True"
| "py_eq_items ((k, v) # xs) ys = (py_eq_item k v ys \<and> py_eq_items xs ys)"
| "py_eq_item k v [] = False"
| "py_eq_item k v ((k', w) # ys) = (if k = k' then py_eq v w else py_eq_item k v ys)"

text \<open>
  \<^verbatim>\<open>a < b\<close> on loaded values: numbers by value, strings by code point, lists at the first
  position where they differ; every other pair raises \<^verbatim>\<open>TypeError\<close>.
\<close>

fun py_lt :: "json \<Rightarrow> json \<Rightarrow> error + bool"
and py_lt_list :: "json list \<Rightarrow> json list \<Rightarrow> error + bool"
where
  "py_lt (JBool x) (JBool y) = Inr (x < y)"
| "py_lt (JBool x) (JInt n) = Inr (of_bool x < n)"
| "py_lt (JInt m) (JBool y) = Inr (m < of_bool y)"
| "py_lt (JInt m) (JInt n) = Inr (m < n)"
| "py_lt (JStr s) (JStr t) = Inr (s < t)"
| "py_lt (JList xs) (JList ys) = py_lt_list xs ys"
| "py_lt _ _ = Inl TypeError"
| "py_lt_list [] [] = Inr False"
| "py_lt_list [] (y # ys) = Inr True"
| "py_lt_list (x # xs) [] = Inr False"
| "py_lt_list (x # xs) (y # ys) = (if py_eq x y then py_lt_list xs ys else py_lt x y)"

text \<open>A comprehension whose body can raise: the first exception ends it.\<close>

fun map_err :: "('a \<Rightarrow> error + 'b) \<Rightarrow> 'a list \<Rightarrow> error + 'b list" where
  "map_err f [] = Inr []"
| "map_err f (x # xs) =
     (case f x of
        Inl e \<Rightarrow> Inl e
      | Inr y \<Rightarrow> (case map_err f xs of Inl e \<Rightarrow> Inl e | Inr ys \<Rightarrow> Inr (y # ys)))"

fun filter_err :: "('a \<Rightarrow> error + bool) \<Rightarrow> 'a list \<Rightarrow> error + 'a list" where
  "filter_err p [] = Inr []"
| "filter_err p (x # xs) =
     (case p x of
        Inl e \<Rightarrow> Inl e
      | Inr b \<Rightarrow> (case filter_err p xs of
                    Inl e \<Rightarrow> Inl e
                  | Inr ys \<Rightarrow> Inr (if b then x # ys else ys)))"

subsection \<open>Calendar dates\<close>

text \<open>
  \<^verbatim>\<open>datetime.date\<close>: year, month and day. A date object always satisfies \<open>valid_date\<close>;
  dates compare by year, then month, then day.
\<close>

record date =
  year :: nat
  month :: nat
  day :: nat

definition is_leap :: "nat \<Rightarrow> bool" where
  "is_leap y = (y mod 4 = 0 \<and> (y mod 100 \<noteq> 0 \<or> y mod 400 = 0))"

definition days_in_month :: "nat \<Rightarrow> nat \<Rightarrow> nat" where
  "days_in_month y m =
     (if m = 2 then (if is_leap y then 29 else 28)
      else if m = 4 \<or> m = 6 \<or> m = 9 \<or> m = 11 then 30 else 31)"

definition valid_date :: "date \<Rightarrow> bool" where
  "valid_date d =
     (1 \<le> year d \<and> year d \<le> 9999 \<and> 1 \<le> month d \<and> month d \<le> 12 \<and>
      1 \<le> day d \<and> day d \<le> days_in_month (year d) (month d))"

definition date_max :: date where
  "date_max = \<lparr>year = 9999, month = 12, day = 31\<rparr>"

definition date_key :: "date \<Rightarrow> nat \<times> nat \<times> nat" where
  "date_key d = (year d, month d, day d)"

text \<open>Decimal digits, \<^verbatim>\<open>str\<close> of an int, and zero padding as \<^verbatim>\<open>%04d\<close> does it.\<close>

definition digit_char :: "nat \<Rightarrow> char" where
  "digit_char n = char_of (48 + n)"

fun str_nat :: "nat \<Rightarrow> string" where
  "str_nat n = (if n < 10 then [digit_char n] else str_nat (n div 10) @ [digit_char (n mod 10)])"

declare str_nat.simps [simp del]

definition str_int :: "int \<Rightarrow> string" where
  "str_int i = (if i < 0 then CHR ''-'' # str_nat (nat (- i)) else str_nat (nat i))"

definition zero_pad :: "nat \<Rightarrow> string \<Rightarrow> string" where
  "zero_pad w s = replicate (w - length s) CHR ''0'' @ s"

text \<open>\<^verbatim>\<open>str(d)\<close> of a date is \<^verbatim>\<open>d.isoformat()\<close>, that is \<^verbatim>\<open>"%04d-%02d-%02d"\<close>.\<close>

definition isoformat :: "date \<Rightarrow> string" where
  "isoformat d =
     zero_pad 4 (str_nat (year d)) @ ''-'' @ zero_pad 2 (str_nat (month d)) @ ''-'' @
     zero_pad 2 (str_nat (day d))"

text \<open>The two and four digits of a number, most significant first.\<close>

definition dec2 :: "nat \<Rightarrow> string" where
  "dec2 n = [digit_char (n div 10), digit_char (n mod 10)]"

definition dec4 :: "nat \<Rightarrow> string" where
  "dec4 n = [digit_char (n div 1000), digit_char (n div 100 mod 10),
             digit_char (n div 10 mod 10), digit_char (n mod 10)]"

text \<open>
  Reading a date back from \<^verbatim>\<open>YYYY-MM-DD\<close>, as the model's \<^verbatim>\<open>due: date\<close> field does with
  a string: four, two and two decimal digits around two hyphens, naming a date of the
  calendar.
\<close>

definition is_digit :: "char \<Rightarrow> bool" where
  "is_digit c = (48 \<le> (of_char c :: nat) \<and> (of_char c :: nat) \<le> 57)"

definition number :: "string \<Rightarrow> nat option" where
  "number s =
     (if s \<noteq> [] \<and> list_all is_digit s
      then Some (foldl (\<lambda>acc c. 10 * acc + (of_char c - 48)) 0 s) else None)"

definition parse_date :: "string \<Rightarrow> date option" where
  "parse_date s =
     (if length s = 10 \<and> s ! 4 = CHR ''-'' \<and> s ! 7 = CHR ''-''
      then Option.bind (number (take 4 s)) (\<lambda>y.
           Option.bind (number (take 2 (drop 5 s))) (\<lambda>m.
           Option.bind (number (drop 8 s)) (\<lambda>d.
             if valid_date \<lparr>year = y, month = m, day = d\<rparr>
             then Some \<lparr>year = y, month = m, day = d\<rparr> else None)))
      else None)"

subsection \<open>The Task model\<close>

text \<open>The field \<^verbatim>\<open>id\<close> of the source is \<open>ident\<close> here, \<open>id\<close> being the identity function.\<close>

record Task =
  ident :: int
  title :: string
  description :: string
  due :: date
  important :: bool
  urgent :: bool
  subtasks :: "string list"
  completed :: bool

text \<open>
  \<^verbatim>\<open>task.model_dump()\<close> as \<^verbatim>\<open>json.dump(..., default=str)\<close> writes it: the fields in the
  order of their declaration, the date as \<^verbatim>\<open>str(date)\<close>.
\<close>

definition model_dump :: "Task \<Rightarrow> json" where
  "model_dump t =
     JObj [(''id'', JInt (ident t)),
           (''title'', JStr (title t)),
           (''description'', JStr (description t)),
           (''due'', JStr (isoformat (due t))),
           (''important'', JBool (important t)),
           (''urgent'', JBool (urgent t)),
           (''subtasks'', JList (map JStr (subtasks t))),
           (''completed'', JBool (completed t))]"

text \<open>
  \<^verbatim>\<open>Task(**t)\<close>: six required fields, two with defaults, other keys ignored. A value
  of the declared JSON type is taken as it is, a date from its ISO string. The library
  also converts some values of other types (a numeric string for an int, say); those are
  rejected here, and nothing below depends on a rejection.
\<close>

definition int_field :: "json \<Rightarrow> int option" where
  "int_field v = (case v of JInt n \<Rightarrow> Some n | _ \<Rightarrow> None)"

definition str_field :: "json \<Rightarrow> string option" where
  "str_field v = (case v of JStr s \<Rightarrow> Some s | _ \<Rightarrow> None)"

definition bool_field :: "json \<Rightarrow> bool option" where
  "bool_field v = (case v of JBool b \<Rightarrow> Some b | _ \<Rightarrow> None)"

definition date_field :: "json \<Rightarrow> date option" where
  "date_field v = (case v of JStr s \<Rightarrow> parse_date s | _ \<Rightarrow> None)"

fun str_items :: "json list \<Rightarrow> string list option" where
  "str_items [] = Some []"
| "str_items (v # vs) =
     Option.bind (str_field v) (\<lambda>s. Option.bind (str_items vs) (\<lambda>ss. Some (s # ss)))"

definition str_list_field :: "json \<Rightarrow> string list option" where
  "str_list_field v = (case v of JList xs \<Rightarrow> str_items xs | _ \<Rightarrow> None)"

definition required :: "(string \<times> json) list \<Rightarrow> string \<Rightarrow> (json \<Rightarrow> 'a option) \<Rightarrow> 'a option" where
  "required kvs k f = Option.bind (map_of kvs k) f"

definition optional :: "(string \<times> json) list \<Rightarrow> string \<Rightarrow> (json \<Rightarrow> 'a option) \<Rightarrow> 'a \<Rightarrow> 'a option" where
  "optional kvs k f d = (case map_of kvs k of None \<Rightarrow> Some d | Some v \<Rightarrow> f v)"

definition validate_fields :: "(string \<times> json) list \<Rightarrow> Task option" where
  "validate_fields kvs =
     Option.bind (required kvs ''id'' int_field) (\<lambda>i.
     Option.bind (required kvs ''title'' str_field) (\<lambda>ti.
     Option.bind (required kvs ''description'' str_field) (\<lambda>de.
     Option.bind (required kvs ''due'' date_field) (\<lambda>du.
     Option.bind (required kvs ''important'' bool_field) (\<lambda>im.
     Option.bind (required kvs ''urgent'' bool_field) (\<lambda>ur.
     Option.bind (optional kvs ''subtasks'' str_list_field []) (\<lambda>su.
     Option.bind (optional kvs ''completed'' bool_field False) (\<lambda>co.
       Some \<lparr>ident = i, title = ti, description = de, due = du, important = im,
             urgent = ur, subtasks = su, completed = co\<rparr>))))))))"

fun Task_of :: "json \<Rightarrow> error + Task" where
  "Task_of (JObj kvs) =
     (case validate_fields kvs of None \<Rightarrow> Inl ValidationError | Some t \<Rightarrow> Inr t)"
| "Task_of _ = Inl TypeError"

subsection \<open>Sorting with the Eisenhower key\<close>

text \<open>
  The third component of the key is \<^verbatim>\<open>t.get("due", date.max)\<close>: the loaded value, or
  the date object \<^verbatim>\<open>date.max\<close>. A date equals and compares with dates only.
\<close>

datatype pyobj = Loaded json | DateObj date

fun obj_eq :: "pyobj \<Rightarrow> pyobj \<Rightarrow> bool" where
  "obj_eq (Loaded a) (Loaded b) = py_eq a b"
| "obj_eq (DateObj d) (DateObj e) = (d = e)"
| "obj_eq _ _ = False"

fun obj_lt :: "pyobj \<Rightarrow> pyobj \<Rightarrow> error + bool" where
  "obj_lt (Loaded a) (Loaded b) = py_lt a b"
| "obj_lt (DateObj d) (DateObj e) = Inr (date_key d < date_key e)"
| "obj_lt _ _ = Inl TypeError"

definition sort_key_of :: "json \<Rightarrow> error + bool \<times> bool \<times> pyobj" where
  "sort_key_of t =
     (case dict_get t ''important'' of
        Inl e \<Rightarrow> Inl e
      | Inr i \<Rightarrow>
     (case dict_get t ''urgent'' of
        Inl e \<Rightarrow> Inl e
      | Inr u \<Rightarrow>
     (case dict_get t ''due'' of
        Inl e \<Rightarrow> Inl e
      | Inr d \<Rightarrow>
          Inr (\<not> truthy (or_default (JBool False) i),
               \<not> truthy (or_default (JBool False) u),
               (case d of None \<Rightarrow> DateObj date_max | Some v \<Rightarrow> Loaded v)))))"

text \<open>
  \<^verbatim>\<open>a < b\<close> on two keys: tuples compare at the first component where they are not equal.
\<close>

fun tuple_lt :: "bool \<times> bool \<times> pyobj \<Rightarrow> bool \<times> bool \<times> pyobj \<Rightarrow> error + bool" where
  "tuple_lt (a1, a2, a3) (b1, b2, b3) =
     (if a1 \<noteq> b1 then Inr (a1 < b1)
      else if a2 \<noteq> b2 then Inr (a2 < b2)
      else if obj_eq a3 b3 then Inr False
      else obj_lt a3 b3)"

text \<open>
  \<^verbatim>\<open>sorted(xs, key=f)\<close>: the keys are computed first, one per element and in order; the
  elements are then put in order of their keys by a stable sort that asks only \<open><\<close> of
  two keys. The sort is written as insertion from the right; on two elements it asks
  the one question \<^verbatim>\<open>key(xs[1]) < key(xs[0])\<close>, as the interpreter does, and whenever no
  comparison raises the result is the one stable ordering there is.
\<close>

fun insort_py :: "('k \<Rightarrow> 'k \<Rightarrow> error + bool) \<Rightarrow> 'k \<times> 'a \<Rightarrow> ('k \<times> 'a) list \<Rightarrow> error + ('k \<times> 'a) list" where
  "insort_py lt x [] = Inr [x]"
| "insort_py lt x (y # ys) =
     (case lt (fst y) (fst x) of
        Inl e \<Rightarrow> Inl e
      | Inr b \<Rightarrow>
          if b then (case insort_py lt x ys of Inl e \<Rightarrow> Inl e | Inr zs \<Rightarrow> Inr (y # zs))
          else Inr (x # y # ys))"

fun sort_py :: "('k \<Rightarrow> 'k \<Rightarrow> error + bool) \<Rightarrow> ('k \<times> 'a) list \<Rightarrow> error + ('k \<times> 'a) list" where
  "sort_py lt [] = Inr []"
| "sort_py lt (x # xs) =
     (case sort_py lt xs of Inl e \<Rightarrow> Inl e | Inr ys \<Rightarrow> insort_py lt x ys)"

definition sorted_py :: "('a \<Rightarrow> error + 'k) \<Rightarrow> ('k \<Rightarrow> 'k \<Rightarrow> error + bool) \<Rightarrow> 'a list \<Rightarrow> error + 'a list" where
  "sorted_py key lt xs =
     (case map_err key xs of
        Inl e \<Rightarrow> Inl e
      | Inr ks \<Rightarrow> (case sort_py lt (zip ks xs) of Inl e \<Rightarrow> Inl e | Inr ps \<Rightarrow> Inr (map snd ps)))"

subsection \<open>The tools\<close>

text \<open>Each tool returns what it returns or raises, and the two files as it leaves them.\<close>

definition list_tasks :: "fs \<Rightarrow> (error + Task list) \<times> fs" where
  "list_tasks s =
     (case load_tasks s of
        Inl e \<Rightarrow> (Inl e, s)
      | Inr raw \<Rightarrow> (map_err Task_of raw, s))"

definition add_task ::
  "int \<Rightarrow> string \<Rightarrow> string \<Rightarrow> date \<Rightarrow> bool \<Rightarrow> bool \<Rightarrow> string list option \<Rightarrow> bool \<Rightarrow> fs
     \<Rightarrow> (error + Task) \<times> fs" where
  "add_task i ti de du im ur su co s =
     (let su' = (case su of None \<Rightarrow> [] | Some xs \<Rightarrow> xs);
          new_task = \<lparr>ident = i, title = ti, description = de, due = du, important = im,
                      urgent = ur, subtasks = su', completed = co\<rparr>
      in case load_tasks s of
           Inl e \<Rightarrow> (Inl e, s)
         | Inr tasks \<Rightarrow> (Inr new_task, save_tasks (tasks @ [model_dump new_task]) s))"

definition prioritise_tasks :: "fs \<Rightarrow> (error + Task list) \<times> fs" where
  "prioritise_tasks s =
     (case load_tasks s of
        Inl e \<Rightarrow> (Inl e, s)
      | Inr raw_tasks \<Rightarrow>
          (case sorted_py sort_key_of tuple_lt raw_tasks of
             Inl e \<Rightarrow> (Inl e, s)
           | Inr sorted_tasks \<Rightarrow> (map_err Task_of sorted_tasks, s)))"

text \<open>
  \<open>today\<close> is the server's date, read and then not used. The filter is
  \<^verbatim>\<open>not t.get("completed", False)\<close>.
\<close>

definition not_completed :: "json \<Rightarrow> error + bool" where
  "not_completed t =
     (case dict_get t ''completed'' of
        Inl e \<Rightarrow> Inl e
      | Inr c \<Rightarrow> Inr (\<not> truthy (or_default (JBool False) c)))"

definition recommend_tasks_for_today :: "date \<Rightarrow> fs \<Rightarrow> (error + Task list) \<times> fs" where
  "recommend_tasks_for_today today s =
     (case load_tasks s of
        Inl e \<Rightarrow> (Inl e, s)
      | Inr raw_tasks \<Rightarrow>
          (case filter_err not_completed raw_tasks of
             Inl e \<Rightarrow> (Inl e, s)
           | Inr candidates \<Rightarrow>
               (case sorted_py sort_key_of tuple_lt candidates of
                  Inl e \<Rightarrow> (Inl e, s)
                | Inr sorted_candidates \<Rightarrow> (map_err Task_of (take 5 sorted_candidates), s))))"

text \<open>
  The loop of \<^verbatim>\<open>mark_task_completed\<close>: the first task whose id equals \<open>task_id\<close> gets
  \<^verbatim>\<open>completed = True\<close>, and the result is the whole list to save; \<open>None\<close> when the loop
  runs to its end. \<open>seen\<close> holds the tasks already passed, in order.
\<close>

fun mark_loop :: "int \<Rightarrow> json list \<Rightarrow> json list \<Rightarrow> error + json list option" where
  "mark_loop task_id seen [] = Inr None"
| "mark_loop task_id seen (t # rest) =
     (case dict_get t ''id'' of
        Inl e \<Rightarrow> Inl e
      | Inr v \<Rightarrow>
          if py_eq (or_default JNull v) (JInt task_id)
          then (case dict_set t ''completed'' (JBool True) of
                  Inl e \<Rightarrow> Inl e
                | Inr t' \<Rightarrow> Inr (Some (seen @ t' # rest)))
          else mark_loop task_id (seen @ [t]) rest)"

definition mark_task_completed :: "int \<Rightarrow> fs \<Rightarrow> (error + string) \<times> fs" where
  "mark_task_completed task_id s =
     (case load_tasks s of
        Inl e \<Rightarrow> (Inl e, s)
      | Inr tasks \<Rightarrow>
          (case mark_loop task_id [] tasks of
             Inl e \<Rightarrow> (Inl e, s)
           | Inr (Some tasks') \<Rightarrow>
               (Inr (''Task '' @ str_int task_id @ '' marked as completed.''), save_tasks tasks' s)
           | Inr None \<Rightarrow> (Inr (''Task '' @ str_int task_id @ '' not found.''), s)))"

text \<open>
  \<^verbatim>\<open>description.split(".")\<close> and \<^verbatim>\<open>s.strip()\<close>. A string is a list of characters with
  code points below 256; among those, \<^verbatim>\<open>str.isspace\<close> holds of tab to carriage return,
  the four separators 28 to 31, the space, NEL (133) and the no-break space (160).
\<close>

fun split_on :: "char \<Rightarrow> string \<Rightarrow> string list" where
  "split_on c [] = [[]]"
| "split_on c (x # xs) =
     (if x = c then [] # split_on c xs
      else (case split_on c xs of w # ws \<Rightarrow> (x # w) # ws | [] \<Rightarrow> [[x]]))"

definition is_space :: "char \<Rightarrow> bool" where
  "is_space c =
     (let n = (of_char c :: nat)
      in (9 \<le> n \<and> n \<le> 13) \<or> (28 \<le> n \<and> n \<le> 32) \<or> n = 133 \<or> n = 160)"

definition strip :: "string \<Rightarrow> string" where
  "strip s = rev (dropWhile is_space (rev (dropWhile is_space s)))"

text \<open>\<^verbatim>\<open>[s.strip() for s in description.split(".") if s.strip()]\<close>\<close>

definition parts_of :: "string \<Rightarrow> string list" where
  "parts_of descr = map strip (filter (\<lambda>s. strip s \<noteq> []) (split_on CHR ''.'' descr))"

fun decompose_loop ::
  "int \<Rightarrow> json list \<Rightarrow> json list \<Rightarrow> error + (string list \<times> json list) option" where
  "decompose_loop task_id seen [] = Inr None"
| "decompose_loop task_id seen (t # rest) =
     (case dict_get t ''id'' of
        Inl e \<Rightarrow> Inl e
      | Inr v \<Rightarrow>
          if py_eq (or_default JNull v) (JInt task_id)
          then (case dict_get t ''description'' of
                  Inl e \<Rightarrow> Inl e
                | Inr d \<Rightarrow>
                    (case or_default (JStr []) d of
                       JStr descr \<Rightarrow>
                         (let parts = parts_of descr
                          in case dict_set t ''subtasks'' (JList (map JStr parts)) of
                               Inl e \<Rightarrow> Inl e
                             | Inr t' \<Rightarrow> Inr (Some (parts, seen @ t' # rest)))
                     | _ \<Rightarrow> Inl AttributeError))
          else decompose_loop task_id (seen @ [t]) rest)"

definition decompose_task :: "int \<Rightarrow> fs \<Rightarrow> (error + string list) \<times> fs" where
  "decompose_task task_id s =
     (case load_tasks s of
        Inl e \<Rightarrow> (Inl e, s)
      | Inr tasks \<Rightarrow>
          (case decompose_loop task_id [] tasks of
             Inl e \<Rightarrow> (Inl e, s)
           | Inr (Some (parts, tasks')) \<Rightarrow> (Inr parts, save_tasks tasks' s)
           | Inr None \<Rightarrow> (Inr [], s)))"

text \<open>
  \<^verbatim>\<open>archive_completed_tasks\<close>. The two comprehensions test \<^verbatim>\<open>t.get("completed")\<close> and its
  negation. The archive is read in place: nothing when the path is missing, the empty
  list when \<^verbatim>\<open>json.load\<close> raises \<^verbatim>\<open>JSONDecodeError\<close>, whatever was loaded otherwise;
  \<^verbatim>\<open>extend\<close> exists on a list only.
\<close>

definition is_completed :: "json \<Rightarrow> error + bool" where
  "is_completed t =
     (case dict_get t ''completed'' of
        Inl e \<Rightarrow> Inl e
      | Inr c \<Rightarrow> Inr (truthy (or_default JNull c)))"

definition is_incomplete :: "json \<Rightarrow> error + bool" where
  "is_incomplete t =
     (case dict_get t ''completed'' of
        Inl e \<Rightarrow> Inl e
      | Inr c \<Rightarrow> Inr (\<not> truthy (or_default JNull c)))"

definition read_archive :: "disk_file \<Rightarrow> error + json" where
  "read_archive f =
     (if os_path_exists f
      then (case json_load f of
              Inr v \<Rightarrow> Inr v
            | Inl e \<Rightarrow> (if e = JSONDecodeError then Inr (JList []) else Inl e))
      else Inr (JList []))"

definition archive_completed_tasks :: "fs \<Rightarrow> (error + string) \<times> fs" where
  "archive_completed_tasks s =
     (case load_tasks s of
        Inl e \<Rightarrow> (Inl e, s)
      | Inr tasks \<Rightarrow>
     (case filter_err is_completed tasks of
        Inl e \<Rightarrow> (Inl e, s)
      | Inr completed_tasks \<Rightarrow>
     (case filter_err is_incomplete tasks of
        Inl e \<Rightarrow> (Inl e, s)
      | Inr incomplete_tasks \<Rightarrow>
          if completed_tasks = [] then (Inr ''No completed tasks to archive.'', s)
          else
            (let s1 = save_tasks incomplete_tasks s
             in case read_archive (archive_file s1) of
                  Inl e \<Rightarrow> (Inl e, s1)
                | Inr archived_tasks \<Rightarrow>
                    (case archived_tasks of
                       JList old \<Rightarrow>
                         (Inr (''Archived '' @ str_nat (length completed_tasks) @
                               '' completed tasks.''),
                          s1\<lparr>archive_file := json_dump (old @ completed_tasks)\<rparr>)
                     | _ \<Rightarrow> (Inl AttributeError, s1))))))"

definition view_archived_tasks :: "fs \<Rightarrow> (error + Task list) \<times> fs" where
  "view_archived_tasks s =
     (if \<not> os_path_exists (archive_file s) then (Inr [], s)
      else case json_load (archive_file s) of
             Inr archived_tasks \<Rightarrow>
               (case archived_tasks of
                  JList xs \<Rightarrow> (map_err Task_of xs, s)
                | _ \<Rightarrow> (Inr [], s))
           | Inl e \<Rightarrow>
               (if e = JSONDecodeError \<or> e = FileNotFoundError then (Inr [], s)
                else (Inl e, s)))"

subsection \<open>Notions used to state the properties\<close>

text \<open>
  A stored task is a dict. It has the id \<open>task_id\<close> when the test of the two loops,
  \<^verbatim>\<open>t.get("id") == task_id\<close>, holds of it; it is done when the test of the archiving tool,
  \<^verbatim>\<open>t.get("completed")\<close>, holds of it.
\<close>

definition is_dict :: "json \<Rightarrow> bool" where
  "is_dict t = (case t of JObj kvs \<Rightarrow> True | _ \<Rightarrow> False)"

definition has_id :: "int \<Rightarrow> json \<Rightarrow> bool" where
  "has_id task_id t =
     (case dict_get t ''id'' of
        Inl e \<Rightarrow> False
      | Inr v \<Rightarrow> py_eq (or_default JNull v) (JInt task_id))"

definition is_done :: "json \<Rightarrow> bool" where
  "is_done t = (is_completed t = Inr True)"

text \<open>
  The two collections a state holds, as the tools read them, and the id of a stored
  task, \<^verbatim>\<open>t.get("id")\<close>. Two tasks have the same id when \<^verbatim>\<open>==\<close> holds of their ids, the
  test by which the tools look a task up. \<open>ids_apart xs ys\<close>: no task of \<open>xs\<close> has the id
  of a task of \<open>ys\<close>.
\<close>

definition active_list :: "fs \<Rightarrow> json list" where
  "active_list s = (case load_tasks s of Inl e \<Rightarrow> [] | Inr xs \<Rightarrow> xs)"

definition archive_list :: "fs \<Rightarrow> json list" where
  "archive_list s =
     (case read_archive (archive_file s) of
        Inl e \<Rightarrow> []
      | Inr v \<Rightarrow> (case v of JList xs \<Rightarrow> xs | _ \<Rightarrow> []))"

definition id_of :: "json \<Rightarrow> json" where
  "id_of t = (case dict_get t ''id'' of Inl e \<Rightarrow> JNull | Inr v \<Rightarrow> or_default JNull v)"

definition same_id :: "json \<Rightarrow> json \<Rightarrow> bool" where
  "same_id a b = py_eq (id_of a) (id_of b)"

definition ids_apart :: "json list \<Rightarrow> json list \<Rightarrow> bool" where
  "ids_apart xs ys = list_all (\<lambda>a. list_all (\<lambda>b. \<not> same_id a b) ys) xs"

text \<open>
  The Eisenhower quadrant of a task, 0 for the first, and the key by which the tasks are
  to be ordered: important before not important, then urgent before not urgent, then the
  earlier due date.
\<close>

definition quadrant :: "Task \<Rightarrow> nat" where
  "quadrant t =
     (if important t \<and> urgent t then 0
      else if important t then 1
      else if urgent t then 2
      else 3)"

definition prio_key :: "Task \<Rightarrow> bool \<times> bool \<times> nat \<times> nat \<times> nat" where
  "prio_key t = (\<not> important t, \<not> urgent t, date_key (due t))"

definition eisenhower_le :: "Task \<Rightarrow> Task \<Rightarrow> bool" where
  "eisenhower_le a b =
     (quadrant a < quadrant b \<or>
      (quadrant a = quadrant b \<and> date_key (due a) \<le> date_key (due b)))"

text \<open>
  Following the spec's words for \<^verbatim>\<open>decompose\<close>: the description split on
  sentence-terminating punctuation (the full stop, the exclamation mark and the question
  mark) into trimmed, non-empty fragments.
\<close>

definition sentence_end :: "char \<Rightarrow> bool" where
  "sentence_end c = (c = CHR ''.'' \<or> c = CHR ''!'' \<or> c = CHR ''?'')"

fun split_where :: "(char \<Rightarrow> bool) \<Rightarrow> string \<Rightarrow> string list" where
  "split_where p [] = [[]]"
| "split_where p (x # xs) =
     (if p x then [] # split_where p xs
      else (case split_where p xs of w # ws \<Rightarrow> (x # w) # ws | [] \<Rightarrow> [[x]]))"

definition spec_fragments :: "string \<Rightarrow> string list" where
  "spec_fragments descr =
     map strip (filter (\<lambda>s. strip s \<noteq> []) (split_where sentence_end descr))"

subsection \<open>Example data\<close>

definition shop :: json where
  "shop = JObj [(''id'', JInt 1), (''title'', JStr ''Shop''), (''completed'', JBool False)]"

definition cook :: json where
  "cook = JObj [(''id'', JInt 2), (''title'', JStr ''Cook''), (''completed'', JBool True)]"

definition two_tasks :: fs where
  "two_tasks = \<lparr>data_file = Content (JList [shop, cook]), archive_file = Missing\<rparr>"

definition one_open :: fs where
  "one_open = \<lparr>data_file = Content (JList [shop]), archive_file = Content (JList [cook])\<rparr>"

definition walk :: json where
  "walk = JObj [(''id'', JInt 3), (''title'', JStr ''Walk''), (''completed'', JBool False)]"

definition bake :: json where
  "bake = JObj [(''id'', JInt 4), (''title'', JStr ''Bake''), (''completed'', JBool True)]"

definition swim :: json where
  "swim = JObj [(''id'', JInt 5), (''title'', JStr ''Swim''), (''completed'', JBool True)]"

definition four_tasks :: fs where
  "four_tasks =
     \<lparr>data_file = Content (JList [shop, cook, walk, bake]),
      archive_file = Content (JList [swim])\<rparr>"

definition empty_store :: fs where
  "empty_store = \<lparr>data_file = Missing, archive_file = Missing\<rparr>"

definition errands :: json where
  "errands =
     JObj [(''id'', JInt 3), (''description'', JStr ''Buy milk. Walk dog. Pay bills.''),
           (''subtasks'', JList [JStr ''later''])]"

definition errands_store :: fs where
  "errands_store = \<lparr>data_file = Content (JList [shop, errands]), archive_file = Missing\<rparr>"

definition exclaim_store :: fs where
  "exclaim_store =
     \<lparr>data_file = Content (JList [JObj [(''id'', JInt 1), (''description'', JStr ''Go! Stop?'')]]),
      archive_file = Missing\<rparr>"

definition dated :: json where
  "dated =
     JObj [(''id'', JInt 1), (''title'', JStr ''Tax''), (''description'', JStr ''File it''),
           (''due'', JStr ''2024-01-01''), (''important'', JBool True), (''urgent'', JBool True),
           (''subtasks'', JList []), (''completed'', JBool False)]"

definition undated :: json where
  "undated =
     JObj [(''id'', JInt 2), (''title'', JStr ''Call''), (''description'', JStr ''Ring back''),
           (''important'', JBool True), (''urgent'', JBool True),
           (''subtasks'', JList []), (''completed'', JBool False)]"

definition day_of :: "nat \<Rightarrow> nat \<Rightarrow> nat \<Rightarrow> date" where
  "day_of y m d = \<lparr>year = y, month = m, day = d\<rparr>"

definition task_neither :: Task where
  "task_neither =
     \<lparr>ident = 1, title = ''Tidy'', description = ''Tidy the desk.'', due = day_of 2024 3 9,
      important = False, urgent = False, subtasks = [], completed = False\<rparr>"

definition task_urgent :: Task where
  "task_urgent =
     \<lparr>ident = 2, title = ''Reply'', description = ''Reply to the mail.'', due = day_of 2024 3 8,
      important = False, urgent = True, subtasks = [], completed = False\<rparr>"

definition task_important :: Task where
  "task_important =
     \<lparr>ident = 3, title = ''Plan'', description = ''Plan the year.'', due = day_of 2024 1 2,
      important = True, urgent = False, subtasks = [''Goals''], completed = False\<rparr>"

definition task_both :: Task where
  "task_both =
     \<lparr>ident = 4, title = ''Tax'', description = ''File the return.'', due = day_of 2024 12 1,
      important = True, urgent = True, subtasks = [], completed = False\<rparr>"

definition task_both_early :: Task where
  "task_both_early =
     \<lparr>ident = 5, title = ''Rent'', description = ''Pay the rent.'', due = day_of 2024 2 29,
      important = True, urgent = True, subtasks = [], completed = False\<rparr>"

definition task_done :: Task where
  "task_done =
     \<lparr>ident = 6, title = ''Boot'', description = ''Fix the boot.'', due = day_of 2023 1 1,
      important = True, urgent = True, subtasks = [], completed = True\<rparr>"

definition task_late :: Task where
  "task_late =
     \<lparr>ident = 7, title = ''Film'', description = ''Watch it.'', due = day_of 2031 10 30,
      important = False, urgent = False, subtasks = [], completed = False\<rparr>"

definition seven_tasks :: "Task list" where
  "seven_tasks =
     [task_late, task_neither, task_urgent, task_done, task_important, task_both,
      task_both_early]"

definition seven_store :: fs where
  "seven_store =
     \<lparr>data_file = Content (JList (map model_dump seven_tasks)), archive_file = Missing\<rparr>"

definition one_store :: fs where
  "one_store = \<lparr>data_file = Content (JList [model_dump task_both]), archive_file = Missing\<rparr>"

definition draft_open :: Task where
  "draft_open =
     \<lparr>ident = 1, title = ''Draft'', description = ''Write the draft.'', due = day_of 2024 5 1,
      important = True, urgent = False, subtasks = [], completed = False\<rparr>"

definition draft_done :: Task where
  "draft_done =
     \<lparr>ident = 1, title = ''Draft'', description = ''Outline the draft.'', due = day_of 2024 4 1,
      important = True, urgent = False, subtasks = [], completed = True\<rparr>"

definition twin_store :: fs where
  "twin_store =
     \<lparr>data_file = Content (JList [model_dump draft_open, model_dump draft_done]),
      archive_file = Missing\<rparr>"

section \<open>Properties\<close>

subsection \<open>Loading from absent or damaged storage\<close>

lemma load_tasks_Missing: "data_file s = Missing \<Longrightarrow> load_tasks s = Inr []"
  by (simp add: load_tasks_def os_path_exists_def)

lemma load_tasks_Malformed: "data_file s = Malformed \<Longrightarrow> load_tasks s = Inr []"
  by (simp add: load_tasks_def os_path_exists_def)

lemma load_tasks_Content:
  "data_file s = Content v \<Longrightarrow>
     load_tasks s = Inr (case v of JList xs \<Rightarrow> xs | _ \<Rightarrow> [])"
  by (simp add: load_tasks_def os_path_exists_def split: json.splits)

lemma load_tasks_JList [simp]: "data_file s = Content (JList xs) \<Longrightarrow> load_tasks s = Inr xs"
  by (simp add: load_tasks_Content)

lemma load_tasks_save_tasks [simp]: "load_tasks (save_tasks tasks s) = Inr tasks"
  by (simp add: save_tasks_def json_dump_def)

text \<open>
  C6, as the claim states it, fails: a file that exists and cannot be opened makes
  \<open>load_tasks\<close> raise, because the handler names \<^verbatim>\<open>JSONDecodeError\<close> and
  \<^verbatim>\<open>FileNotFoundError\<close> only.
\<close>

theorem load_tasks_unreadable_raises:
  "load_tasks \<lparr>data_file = Unreadable, archive_file = Missing\<rparr> = Inl PermissionError"
  by (simp add: load_tasks_def os_path_exists_def)

text \<open>
  C6, amended: loading the active list returns the empty list when the file is missing,
  when its text is not JSON, and when its JSON is not a list; it returns the stored list
  when there is one; and it raises when the file exists and cannot be opened
  (\<^verbatim>\<open>PermissionError\<close>) or is not UTF-8 text (\<^verbatim>\<open>UnicodeDecodeError\<close>).
\<close>

theorem load_tasks_degrades_to_empty:
  "load_tasks s =
     (case data_file s of
        Missing \<Rightarrow> Inr []
      | Malformed \<Rightarrow> Inr []
      | Content (JList xs) \<Rightarrow> Inr xs
      | Content _ \<Rightarrow> Inr []
      | Unreadable \<Rightarrow> Inl PermissionError
      | Undecodable \<Rightarrow> Inl UnicodeDecodeError)"
  by (simp add: load_tasks_def os_path_exists_def split: disk_file.splits json.splits)

subsection \<open>The tools that only read\<close>

text \<open>
  C10: \<open>list_tasks\<close>, \<open>prioritise_tasks\<close>, \<open>recommend_tasks_for_today\<close> and
  \<open>view_archived_tasks\<close> leave both files as they found them, whatever the files hold
  and whether the tool returns or raises.
\<close>

theorem read_tools_change_nothing:
  "snd (list_tasks s) = s \<and> snd (prioritise_tasks s) = s \<and>
   snd (recommend_tasks_for_today today s) = s \<and> snd (view_archived_tasks s) = s"
  by (simp add: list_tasks_def prioritise_tasks_def recommend_tasks_for_today_def
      view_archived_tasks_def split: sum.splits json.splits)

subsection \<open>Marking a task that is not there\<close>

lemma mark_loop_not_found:
  "\<forall>t\<in>set tasks. is_dict t \<and> \<not> has_id task_id t \<Longrightarrow> mark_loop task_id seen tasks = Inr None"
proof (induction tasks arbitrary: seen)
  case Nil
  show ?case by simp
next
  case (Cons t tasks)
  from Cons.prems obtain kvs where t: "t = JObj kvs"
    by (cases t) (auto simp: is_dict_def)
  from Cons.prems t have "\<not> py_eq (or_default JNull (map_of kvs ''id'')) (JInt task_id)"
    by (simp add: has_id_def)
  with t Cons show ?case by simp
qed

text \<open>
  C4: when the stored tasks are dicts and none has the id \<open>task_id\<close>,
  \<open>mark_task_completed\<close> returns the message \<^verbatim>\<open>Task <id> not found.\<close>, raises nothing
  and writes nothing: both files are as before.
\<close>

theorem mark_task_completed_not_found:
  assumes "load_tasks s = Inr tasks"
      and "\<forall>t\<in>set tasks. is_dict t \<and> \<not> has_id task_id t"
  shows "mark_task_completed task_id s =
           (Inr (''Task '' @ str_int task_id @ '' not found.''), s)"
  using assms by (simp add: mark_task_completed_def mark_loop_not_found)

theorem mark_task_completed_not_found_witness:
  "mark_task_completed 7 two_tasks = (Inr ''Task 7 not found.'', two_tasks)"
proof -
  have 1: "load_tasks two_tasks = Inr [shop, cook]" by code_simp
  have 2: "\<forall>t\<in>set [shop, cook]. is_dict t \<and> \<not> has_id 7 t" by code_simp
  have 3: "str_int 7 = ''7''" by code_simp
  show ?thesis using mark_task_completed_not_found [OF 1 2] 3 by simp
qed

subsection \<open>Archiving\<close>

lemma is_completed_dict: "is_dict t \<Longrightarrow> is_completed t = Inr (is_done t)"
  by (cases t) (auto simp: is_dict_def is_done_def is_completed_def)

lemma is_incomplete_dict: "is_dict t \<Longrightarrow> is_incomplete t = Inr (\<not> is_done t)"
  by (cases t) (auto simp: is_dict_def is_done_def is_completed_def is_incomplete_def)

lemma filter_completed:
  "\<forall>t\<in>set tasks. is_dict t \<Longrightarrow> filter_err is_completed tasks = Inr (filter is_done tasks)"
  by (induction tasks) (auto simp: is_completed_dict)

lemma filter_incomplete:
  "\<forall>t\<in>set tasks. is_dict t \<Longrightarrow>
     filter_err is_incomplete tasks = Inr (filter (\<lambda>t. \<not> is_done t) tasks)"
  by (induction tasks) (auto simp: is_incomplete_dict)

lemma read_archive_Content [simp]: "read_archive (Content v) = Inr v"
  by (simp add: read_archive_def os_path_exists_def)

lemma archive_nothing_done:
  assumes "load_tasks s = Inr tasks"
      and "\<forall>t\<in>set tasks. is_dict t"
      and "filter is_done tasks = []"
  shows "archive_completed_tasks s = (Inr ''No completed tasks to archive.'', s)"
  using assms by (simp add: archive_completed_tasks_def filter_completed filter_incomplete)

lemma archive_some_done:
  assumes "load_tasks s = Inr tasks"
      and "\<forall>t\<in>set tasks. is_dict t"
      and "filter is_done tasks \<noteq> []"
      and "read_archive (archive_file s) = Inr (JList old)"
  shows "archive_completed_tasks s =
           (Inr (''Archived '' @ str_nat (length (filter is_done tasks)) @ '' completed tasks.''),
            \<lparr>data_file = Content (JList (filter (\<lambda>t. \<not> is_done t) tasks)),
             archive_file = Content (JList (old @ filter is_done tasks))\<rparr>)"
  using assms
  by (simp add: archive_completed_tasks_def filter_completed filter_incomplete save_tasks_def
      json_dump_def Let_def)

text \<open>
  C8: when no stored task is done, \<open>archive_completed_tasks\<close> writes to neither file and
  answers \<^verbatim>\<open>No completed tasks to archive.\<close>; run again on the files it left, it does the
  same.
\<close>

theorem archive_idempotent_when_nothing_done:
  assumes "load_tasks s = Inr tasks"
      and "\<forall>t\<in>set tasks. is_dict t \<and> \<not> is_done t"
  shows "archive_completed_tasks s = (Inr ''No completed tasks to archive.'', s) \<and>
         archive_completed_tasks (snd (archive_completed_tasks s)) =
           (Inr ''No completed tasks to archive.'', s)"
proof -
  from assms(2) have "filter is_done tasks = []"
    by (simp add: filter_empty_conv)
  with assms have "archive_completed_tasks s = (Inr ''No completed tasks to archive.'', s)"
    by (simp add: archive_nothing_done)
  then show ?thesis by simp
qed

theorem archive_idempotent_when_nothing_done_witness:
  "archive_completed_tasks one_open = (Inr ''No completed tasks to archive.'', one_open) \<and>
   archive_completed_tasks (snd (archive_completed_tasks one_open)) =
     (Inr ''No completed tasks to archive.'', one_open)"
proof -
  have 1: "load_tasks one_open = Inr [shop]" by code_simp
  have 2: "\<forall>t\<in>set [shop]. is_dict t \<and> \<not> is_done t" by code_simp
  show ?thesis using archive_idempotent_when_nothing_done [OF 1 2] .
qed

lemma ids_apart_append:
  "ids_apart xs (ys @ zs) \<longleftrightarrow> ids_apart xs ys \<and> ids_apart xs zs"
  by (induction xs) (auto simp: ids_apart_def)

lemma is_dict_model_dump: "is_dict (model_dump t)"
  by (simp add: is_dict_def model_dump_def)

lemma is_done_model_dump: "is_done (model_dump t) = completed t"
  by (simp add: is_done_def is_completed_def model_dump_def or_default_def)

lemma id_of_model_dump: "id_of (model_dump t) = JInt (ident t)"
  by (simp add: id_of_def model_dump_def or_default_def)

lemma archive_twin_store:
  "snd (archive_completed_tasks twin_store) =
     \<lparr>data_file = Content (JList [model_dump draft_open]),
      archive_file = Content (JList [model_dump draft_done])\<rparr>"
proof -
  have c: "completed draft_done" "\<not> completed draft_open"
    by (simp_all add: draft_done_def draft_open_def)
  have 1: "load_tasks twin_store = Inr [model_dump draft_open, model_dump draft_done]"
    by (simp add: twin_store_def)
  have 2: "\<forall>t\<in>set [model_dump draft_open, model_dump draft_done]. is_dict t"
    by (simp add: is_dict_model_dump)
  have 3: "filter is_done [model_dump draft_open, model_dump draft_done] \<noteq> []"
    by (simp add: is_done_model_dump c)
  have 4: "read_archive (archive_file twin_store) = Inr (JList [])"
    by (simp add: twin_store_def read_archive_def os_path_exists_def)
  show ?thesis
    using archive_some_done [OF 1 2 3 4] by (simp add: is_done_model_dump c)
qed

text \<open>
  C2, as the claim states it, fails in its last part, which the spec words as "no task
  id appears in both". Ids are not unique: after \<open>add_task\<close> with id 1 for an open task
  and again with id 1 for a completed one, archiving moves the completed task and keeps
  the open one, and the id 1 is in both collections.
\<close>

theorem archive_leaves_id_in_both:
  "snd (add_task 1 ''Draft'' ''Outline the draft.'' (day_of 2024 4 1) True False None True
     (snd (add_task 1 ''Draft'' ''Write the draft.'' (day_of 2024 5 1) True False None False
        empty_store))) = twin_store \<and>
   active_list (snd (archive_completed_tasks twin_store)) = [model_dump draft_open] \<and>
   archive_list (snd (archive_completed_tasks twin_store)) = [model_dump draft_done] \<and>
   id_of (model_dump draft_open) = JInt 1 \<and>
   id_of (model_dump draft_done) = JInt 1 \<and>
   \<not> ids_apart (active_list (snd (archive_completed_tasks twin_store)))
                (archive_list (snd (archive_completed_tasks twin_store)))"
proof -
  have 1: "snd (add_task 1 ''Draft'' ''Outline the draft.'' (day_of 2024 4 1) True False None True
     (snd (add_task 1 ''Draft'' ''Write the draft.'' (day_of 2024 5 1) True False None False
        empty_store))) = twin_store"
    by (simp add: add_task_def empty_store_def twin_store_def save_tasks_def json_dump_def
        load_tasks_def os_path_exists_def draft_open_def draft_done_def Let_def)
  have 2: "active_list (snd (archive_completed_tasks twin_store)) = [model_dump draft_open]"
    by (simp add: archive_twin_store active_list_def)
  have 3: "archive_list (snd (archive_completed_tasks twin_store)) = [model_dump draft_done]"
    by (simp add: archive_twin_store archive_list_def)
  have 4: "id_of (model_dump draft_open) = JInt 1"
    by (simp add: id_of_model_dump draft_open_def)
  have 5: "id_of (model_dump draft_done) = JInt 1"
    by (simp add: id_of_model_dump draft_done_def)
  have 6: "\<not> ids_apart (active_list (snd (archive_completed_tasks twin_store)))
                (archive_list (snd (archive_completed_tasks twin_store)))"
    by (simp add: 2 3 ids_apart_def same_id_def 4 5)
  from 1 2 3 4 5 6 show ?thesis by blast
qed

lemma archive_outcome:
  assumes "load_tasks s = Inr tasks"
      and "\<forall>t\<in>set tasks. is_dict t"
      and "read_archive (archive_file s) = Inr (JList old)"
  shows "fst (archive_completed_tasks s) =
           Inr (if filter is_done tasks = [] then ''No completed tasks to archive.''
                else ''Archived '' @ str_nat (length (filter is_done tasks)) @
                     '' completed tasks.'') \<and>
         load_tasks (snd (archive_completed_tasks s)) = Inr (filter (\<lambda>t. \<not> is_done t) tasks) \<and>
         read_archive (archive_file (snd (archive_completed_tasks s))) =
           Inr (JList (old @ filter is_done tasks))"
proof (cases "filter is_done tasks = []")
  case True
  then have o: "filter (\<lambda>t. \<not> is_done t) tasks = tasks"
    by (simp add: filter_empty_conv)
  have a: "archive_completed_tasks s = (Inr ''No completed tasks to archive.'', s)"
    using assms(1,2) True by (rule archive_nothing_done)
  show ?thesis by (simp add: a o True assms(1,3))
next
  case False
  note a = archive_some_done [OF assms(1,2) False assms(3)]
  show ?thesis by (simp add: a False)
qed

text \<open>
  C2, amended: for an active list of dicts and an archive that holds a list (or is
  missing, or is not JSON: the empty list), after \<open>archive_completed_tasks\<close> the active
  collection is the tasks that were not done, in their order, and the archive collection
  is the old archive followed by the done tasks, in their order. No record that was
  moved is left in the active collection, and when the old archive holds done records
  only (the tool writes no others) no record is in both collections. An id can be in
  both, ids not being unique; when beforehand no open active task has the id of a done
  active task or of an archived task, no id is in both collections afterwards.
\<close>

theorem archive_moves_done_tasks:
  assumes "load_tasks s = Inr tasks"
      and "\<forall>t\<in>set tasks. is_dict t"
      and "read_archive (archive_file s) = Inr (JList old)"
  shows "fst (archive_completed_tasks s) =
           Inr (if filter is_done tasks = [] then ''No completed tasks to archive.''
                else ''Archived '' @ str_nat (length (filter is_done tasks)) @
                     '' completed tasks.'') \<and>
         load_tasks (snd (archive_completed_tasks s)) = Inr (filter (\<lambda>t. \<not> is_done t) tasks) \<and>
         read_archive (archive_file (snd (archive_completed_tasks s))) =
           Inr (JList (old @ filter is_done tasks)) \<and>
         active_list (snd (archive_completed_tasks s)) = filter (\<lambda>t. \<not> is_done t) tasks \<and>
         archive_list (snd (archive_completed_tasks s)) = old @ filter is_done tasks \<and>
         set (active_list (snd (archive_completed_tasks s))) \<inter> set (filter is_done tasks) = {} \<and>
         (list_all is_done old \<longrightarrow>
            set (active_list (snd (archive_completed_tasks s))) \<inter>
            set (archive_list (snd (archive_completed_tasks s))) = {}) \<and>
         (ids_apart (filter (\<lambda>t. \<not> is_done t) tasks) (filter is_done tasks @ old) \<longrightarrow>
            ids_apart (active_list (snd (archive_completed_tasks s)))
                      (archive_list (snd (archive_completed_tasks s))))"
proof -
  let ?s' = "snd (archive_completed_tasks s)"
  let ?open = "filter (\<lambda>t. \<not> is_done t) tasks"
  let ?done = "filter is_done tasks"
  note o = archive_outcome [OF assms]
  from o have 1: "fst (archive_completed_tasks s) =
           Inr (if ?done = [] then ''No completed tasks to archive.''
                else ''Archived '' @ str_nat (length ?done) @ '' completed tasks.'')"
    by (rule conjunct1)
  from o have 2: "load_tasks ?s' = Inr ?open" by (rule conjunct2 [THEN conjunct1])
  from o have 3: "read_archive (archive_file ?s') = Inr (JList (old @ ?done))"
    by (rule conjunct2 [THEN conjunct2])
  have 4: "active_list ?s' = ?open" by (simp add: active_list_def 2)
  have 5: "archive_list ?s' = old @ ?done" by (simp add: archive_list_def 3)
  have 6: "set (active_list ?s') \<inter> set ?done = {}"
    unfolding 4 by auto
  have 7: "list_all is_done old \<longrightarrow> set (active_list ?s') \<inter> set (archive_list ?s') = {}"
    unfolding 4 5 by (auto simp: list_all_iff)
  have 8: "ids_apart ?open (?done @ old) \<longrightarrow> ids_apart (active_list ?s') (archive_list ?s')"
    unfolding 4 5 by (simp add: ids_apart_append)
  from 1 2 3 4 5 6 7 8 show ?thesis by blast
qed


theorem archive_moves_done_tasks_witness:
  "fst (archive_completed_tasks four_tasks) = Inr ''Archived 2 completed tasks.'' \<and>
   active_list (snd (archive_completed_tasks four_tasks)) = [shop, walk] \<and>
   archive_list (snd (archive_completed_tasks four_tasks)) = [swim, cook, bake] \<and>
   set (active_list (snd (archive_completed_tasks four_tasks))) \<inter>
   set (archive_list (snd (archive_completed_tasks four_tasks))) = {} \<and>
   ids_apart (active_list (snd (archive_completed_tasks four_tasks)))
             (archive_list (snd (archive_completed_tasks four_tasks)))"
proof -
  have 1: "load_tasks four_tasks = Inr [shop, cook, walk, bake]" by code_simp
  have 2: "\<forall>t\<in>set [shop, cook, walk, bake]. is_dict t" by code_simp
  have 3: "read_archive (archive_file four_tasks) = Inr (JList [swim])" by code_simp
  have 4: "filter is_done [shop, cook, walk, bake] = [cook, bake]" by code_simp
  have 5: "filter (\<lambda>t. \<not> is_done t) [shop, cook, walk, bake] = [shop, walk]" by code_simp
  have 6: "''Archived '' @ str_nat (length [cook, bake]) @ '' completed tasks.'' =
           ''Archived 2 completed tasks.''" by code_simp
  have 7: "list_all is_done [swim]" by code_simp
  have 8: "ids_apart [shop, walk] ([cook, bake] @ [swim])" by code_simp
  note t = archive_moves_done_tasks [OF 1 2 3, unfolded 4 5]
  from t have "fst (archive_completed_tasks four_tasks) =
                 Inr (if [cook, bake] = [] then ''No completed tasks to archive.''
                      else ''Archived '' @ str_nat (length [cook, bake]) @
                           '' completed tasks.'')"
    by (rule conjunct1)
  then have a: "fst (archive_completed_tasks four_tasks) = Inr ''Archived 2 completed tasks.''"
    by (simp only: 6 list.distinct if_False)
  from t have b: "active_list (snd (archive_completed_tasks four_tasks)) = [shop, walk]"
    by blast
  from t have c: "archive_list (snd (archive_completed_tasks four_tasks)) = [swim, cook, bake]"
    by simp
  from t 7 have d: "set (active_list (snd (archive_completed_tasks four_tasks))) \<inter>
                    set (archive_list (snd (archive_completed_tasks four_tasks))) = {}"
    by blast
  from t 8 have e: "ids_apart (active_list (snd (archive_completed_tasks four_tasks)))
                              (archive_list (snd (archive_completed_tasks four_tasks)))"
    by blast
  from a b c d e show ?thesis by blast
qed

subsection \<open>Decomposing a task\<close>

lemma split_on_nonempty [simp]: "split_on c s \<noteq> []"
  by (induction s) (auto split: list.splits)

lemma split_on_pieces: "w \<in> set (split_on c s) \<Longrightarrow> c \<notin> set w"
  by (induction s arbitrary: w) (auto split: if_splits list.splits)

lemma split_on_join: "concat (map ((#) c) (split_on c s)) = c # s"
  by (induction s) (auto split: list.splits)

lemma set_strip: "set (strip s) \<subseteq> set s"
proof -
  have "set (strip s) \<subseteq> set (dropWhile is_space s)"
    unfolding strip_def using set_dropWhileD by fastforce
  also have "\<dots> \<subseteq> set s" using set_dropWhileD by fastforce
  finally show ?thesis .
qed

lemma last_strip: "strip s \<noteq> [] \<Longrightarrow> \<not> is_space (last (strip s))"
proof -
  assume a: "strip s \<noteq> []"
  let ?r = "dropWhile is_space (rev (dropWhile is_space s))"
  from a have "?r \<noteq> []" by (simp add: strip_def)
  then have "\<not> is_space (hd ?r)" by (rule hd_dropWhile)
  moreover have "last (strip s) = hd ?r" using \<open>?r \<noteq> []\<close> by (simp add: strip_def last_rev)
  ultimately show ?thesis by simp
qed

lemma hd_strip: "strip s \<noteq> [] \<Longrightarrow> \<not> is_space (hd (strip s))"
proof -
  assume a: "strip s \<noteq> []"
  let ?d = "dropWhile is_space s"
  have eq: "strip s = rev (dropWhile is_space (rev ?d))" by (simp add: strip_def)
  from a have dn: "?d \<noteq> []" by (cases "?d = []") (simp_all add: strip_def)
  then have h: "\<not> is_space (hd ?d)" by (rule hd_dropWhile)
  obtain x xs where d: "?d = x # xs" using dn by (cases ?d) auto
  have "rev (dropWhile is_space (rev (x # xs))) = x # rev (dropWhile is_space (rev xs))"
    if "\<not> is_space x" for x xs
    using that by (simp add: dropWhile_append3 dropWhile_append)
  with h d have "strip s = x # rev (dropWhile is_space (rev xs))" by (simp add: eq)
  with h d show ?thesis by simp
qed

lemma parts_of_trimmed:
  "p \<in> set (parts_of d) \<Longrightarrow>
     p \<noteq> [] \<and> CHR ''.'' \<notin> set p \<and> \<not> is_space (hd p) \<and> \<not> is_space (last p)"
  using set_strip by (auto simp: parts_of_def hd_strip last_strip dest!: split_on_pieces)

lemma decompose_loop_found:
  assumes "\<forall>t\<in>set pre. is_dict t \<and> \<not> has_id task_id t"
      and "has_id task_id (JObj kvs)"
      and "or_default (JStr []) (map_of kvs ''description'') = JStr d"
  shows "decompose_loop task_id seen (pre @ JObj kvs # post) =
           Inr (Some (parts_of d,
                      seen @ pre @ JObj (AList.update ''subtasks'' (JList (map JStr (parts_of d))) kvs) # post))"
  using assms(1)
proof (induction pre arbitrary: seen)
  case Nil
  with assms(2,3) show ?case by (simp add: has_id_def Let_def)
next
  case (Cons t pre)
  from Cons.prems obtain kv where t: "t = JObj kv"
    by (cases t) (auto simp: is_dict_def)
  from Cons.prems t have "\<not> py_eq (or_default JNull (map_of kv ''id'')) (JInt task_id)"
    by (simp add: has_id_def)
  with t Cons show ?case by simp
qed

text \<open>
  C5, as the claim states it, fails: the split is at the full stop only. A description
  of two sentences that end in \<open>!\<close> and \<open>?\<close> comes back as one fragment, where splitting on
  sentence-terminating punctuation gives two.
\<close>

theorem decompose_task_keeps_other_punctuation:
  "fst (decompose_task 1 exclaim_store) = Inr [''Go! Stop?''] \<and>
   spec_fragments ''Go! Stop?'' = [''Go'', ''Stop'']"
  by code_simp

text \<open>
  C5, amended: for the first stored task whose id equals \<open>task_id\<close>, \<open>decompose_task\<close>
  splits the description at every full stop (and at no other character), trims each
  piece and drops the empty ones; it assigns that list to the task's \<^verbatim>\<open>subtasks\<close>, saves
  the list of tasks and returns the fragments. Each fragment is non-empty, holds no full
  stop and neither starts nor ends with white space. The description
  \<^verbatim>\<open>Buy milk. Walk dog. Pay bills.\<close> gives \<^verbatim>\<open>Buy milk\<close>, \<^verbatim>\<open>Walk dog\<close>, \<^verbatim>\<open>Pay bills\<close>.
\<close>

theorem decompose_task_splits_at_full_stops:
  assumes "load_tasks s = Inr (pre @ JObj kvs # post)"
      and "\<forall>t\<in>set pre. is_dict t \<and> \<not> has_id task_id t"
      and "has_id task_id (JObj kvs)"
      and "or_default (JStr []) (map_of kvs ''description'') = JStr d"
  shows "decompose_task task_id s =
           (Inr (parts_of d),
            save_tasks
              (pre @ JObj (AList.update ''subtasks'' (JList (map JStr (parts_of d))) kvs) # post) s) \<and>
         map_of (AList.update ''subtasks'' (JList (map JStr (parts_of d))) kvs) ''subtasks'' =
           Some (JList (map JStr (parts_of d))) \<and>
         parts_of d = map strip (filter (\<lambda>w. strip w \<noteq> []) (split_on CHR ''.'' d)) \<and>
         concat (map ((#) CHR ''.'') (split_on CHR ''.'' d)) = CHR ''.'' # d \<and>
         (\<forall>p\<in>set (parts_of d).
            p \<noteq> [] \<and> CHR ''.'' \<notin> set p \<and> \<not> is_space (hd p) \<and> \<not> is_space (last p)) \<and>
         parts_of ''Buy milk. Walk dog. Pay bills.'' = [''Buy milk'', ''Walk dog'', ''Pay bills'']"
proof -
  have 1: "decompose_task task_id s =
           (Inr (parts_of d),
            save_tasks
              (pre @ JObj (AList.update ''subtasks'' (JList (map JStr (parts_of d))) kvs) # post) s)"
    using assms decompose_loop_found [OF assms(2,3,4), of "[]" post]
    by (simp add: decompose_task_def)
  have 2: "map_of (AList.update ''subtasks'' (JList (map JStr (parts_of d))) kvs) ''subtasks'' =
           Some (JList (map JStr (parts_of d)))"
    by (simp add: update_conv')
  have 3: "parts_of d = map strip (filter (\<lambda>w. strip w \<noteq> []) (split_on CHR ''.'' d))"
    by (simp add: parts_of_def)
  have 4: "concat (map ((#) CHR ''.'') (split_on CHR ''.'' d)) = CHR ''.'' # d"
    by (rule split_on_join)
  have 5: "\<forall>p\<in>set (parts_of d).
            p \<noteq> [] \<and> CHR ''.'' \<notin> set p \<and> \<not> is_space (hd p) \<and> \<not> is_space (last p)"
    using parts_of_trimmed by blast
  have 6: "parts_of ''Buy milk. Walk dog. Pay bills.'' = [''Buy milk'', ''Walk dog'', ''Pay bills'']"
    by code_simp
  from 1 2 3 4 5 6 show ?thesis by blast
qed

theorem decompose_task_splits_at_full_stops_witness:
  "decompose_task 3 errands_store =
     (Inr [''Buy milk'', ''Walk dog'', ''Pay bills''],
      save_tasks
        [shop,
         JObj [(''id'', JInt 3), (''description'', JStr ''Buy milk. Walk dog. Pay bills.''),
               (''subtasks'', JList [JStr ''Buy milk'', JStr ''Walk dog'', JStr ''Pay bills''])]]
        errands_store)"
proof -
  let ?kvs = "[(''id'', JInt 3), (''description'', JStr ''Buy milk. Walk dog. Pay bills.''),
               (''subtasks'', JList [JStr ''later''])]"
  let ?d = "''Buy milk. Walk dog. Pay bills.''"
  have 1: "load_tasks errands_store = Inr ([shop] @ JObj ?kvs # [])" by code_simp
  have 2: "\<forall>t\<in>set [shop]. is_dict t \<and> \<not> has_id 3 t" by code_simp
  have 3: "has_id 3 (JObj ?kvs)" by code_simp
  have 4: "or_default (JStr []) (map_of ?kvs ''description'') = JStr ?d" by code_simp
  have 5: "parts_of ?d = [''Buy milk'', ''Walk dog'', ''Pay bills'']" by code_simp
  have 6: "AList.update ''subtasks'' (JList (map JStr [''Buy milk'', ''Walk dog'', ''Pay bills''])) ?kvs =
           [(''id'', JInt 3), (''description'', JStr ?d),
            (''subtasks'', JList [JStr ''Buy milk'', JStr ''Walk dog'', JStr ''Pay bills''])]"
    by code_simp
  from decompose_task_splits_at_full_stops [OF 1 2 3 4]
  have "decompose_task 3 errands_store =
           (Inr (parts_of ?d),
            save_tasks
              ([shop] @ JObj (AList.update ''subtasks'' (JList (map JStr (parts_of ?d))) ?kvs) # [])
              errands_store)"
    by (rule conjunct1)
  then show ?thesis by (simp only: 5 6 append_Cons append_Nil)
qed

subsection \<open>A task without a due date\<close>

text \<open>
  C7: the key of a task without \<^verbatim>\<open>due\<close> ends in the date object \<^verbatim>\<open>date.max\<close>, and the
  key of a stored task ends in the string that was loaded. In the same quadrant the two
  keys are compared at that component, a date with a string, and the comparison raises
  \<^verbatim>\<open>TypeError\<close>, in either order of the two tasks. Alone, the task without a due date
  is sorted and then rejected by the model, whose \<^verbatim>\<open>due\<close> is required.
\<close>

theorem prioritise_tasks_undated_raises:
  "fst (prioritise_tasks \<lparr>data_file = Content (JList [dated, undated]), archive_file = Missing\<rparr>)
     = Inl TypeError \<and>
   fst (prioritise_tasks \<lparr>data_file = Content (JList [undated, dated]), archive_file = Missing\<rparr>)
     = Inl TypeError \<and>
   fst (prioritise_tasks \<lparr>data_file = Content (JList [undated]), archive_file = Missing\<rparr>)
     = Inl ValidationError"
  by code_simp

subsection \<open>Dates as ISO strings\<close>

lemma of_char_digit_char: "n < 10 \<Longrightarrow> of_char (digit_char n) = 48 + n"
  by (simp add: digit_char_def)

lemma digit_char_less: "a < 10 \<Longrightarrow> b < 10 \<Longrightarrow> digit_char a < digit_char b \<longleftrightarrow> a < b"
  by (simp add: less_char_def of_char_digit_char)

lemma digit_char_eq: "a < 10 \<Longrightarrow> b < 10 \<Longrightarrow> digit_char a = digit_char b \<longleftrightarrow> a = b"
  by (metis of_char_digit_char add_left_cancel)

lemma digit_char_0: "digit_char 0 = CHR ''0''"
  by code_simp

lemma is_digit_digit_char: "n < 10 \<Longrightarrow> is_digit (digit_char n)"
  by (simp add: is_digit_def of_char_digit_char)

lemma hyphen_not_digit: "digit_char n \<noteq> CHR ''-''" if "n < 10"
proof
  assume "digit_char n = CHR ''-''"
  then have "(of_char (digit_char n) :: nat) = of_char CHR ''-''" by simp
  with that show False by (simp add: of_char_digit_char)
qed

lemma str_nat_1: "n < 10 \<Longrightarrow> str_nat n = [digit_char n]"
  by (simp add: str_nat.simps)

lemma str_nat_2: "10 \<le> n \<Longrightarrow> n < 100 \<Longrightarrow> str_nat n = [digit_char (n div 10), digit_char (n mod 10)]"
  by (subst str_nat.simps) (simp add: str_nat_1)

lemma str_nat_3: "100 \<le> n \<Longrightarrow> n < 1000 \<Longrightarrow>
  str_nat n = [digit_char (n div 100), digit_char (n div 10 mod 10), digit_char (n mod 10)]"
  by (subst str_nat.simps) (simp add: str_nat_2 div_mult2_eq[symmetric])

lemma str_nat_4: "1000 \<le> n \<Longrightarrow> n < 10000 \<Longrightarrow>
  str_nat n = [digit_char (n div 1000), digit_char (n div 100 mod 10),
               digit_char (n div 10 mod 10), digit_char (n mod 10)]"
  by (subst str_nat.simps) (simp add: str_nat_3 div_mult2_eq[symmetric])

lemma replicate_2: "replicate 2 c = [c, c]"
  by (simp add: numeral_2_eq_2)

lemma replicate_3: "replicate 3 c = [c, c, c]"
  by (simp add: numeral_3_eq_3)

lemma zero_pad_2: "n < 100 \<Longrightarrow> zero_pad 2 (str_nat n) = dec2 n"
proof (cases "n < 10")
  case True
  then show ?thesis by (simp add: zero_pad_def str_nat_1 dec2_def digit_char_0)
next
  case False
  assume "n < 100"
  with False show ?thesis by (simp add: zero_pad_def str_nat_2 dec2_def)
qed

lemma zero_pad_4: "n < 10000 \<Longrightarrow> zero_pad 4 (str_nat n) = dec4 n"
proof -
  assume n: "n < 10000"
  consider "n < 10" | "10 \<le> n" "n < 100" | "100 \<le> n" "n < 1000" | "1000 \<le> n"
    by linarith
  then show ?thesis
  proof cases
    case 1
    then show ?thesis
      by (simp add: zero_pad_def str_nat_1 dec4_def digit_char_0 replicate_3)
  next
    case 2
    then show ?thesis
      by (simp add: zero_pad_def str_nat_2 dec4_def digit_char_0 replicate_2)
  next
    case 3
    then show ?thesis
      by (simp add: zero_pad_def str_nat_3 dec4_def digit_char_0)
  next
    case 4
    with n show ?thesis
      by (simp add: zero_pad_def str_nat_4 dec4_def)
  qed
qed


lemma lex_div_mod:
  fixes a b k :: nat
  shows "(a div k < b div k \<or> a div k = b div k \<and> a mod k < b mod k) \<longleftrightarrow> a < b"
proof
  assume l: "a div k < b div k \<or> a div k = b div k \<and> a mod k < b mod k"
  show "a < b"
  proof (rule ccontr)
    assume "\<not> a < b"
    then have ba: "b \<le> a" by simp
    then have "b div k \<le> a div k" by (rule div_le_mono)
    with l have e: "a div k = b div k" and m: "a mod k < b mod k" by auto
    have "k * (a div k) + a mod k = a" and "k * (b div k) + b mod k = b"
      by (rule mult_div_mod_eq)+
    with e m have "a < b" by (metis nat_add_left_cancel_less)
    with ba show False by simp
  qed
next
  assume ab: "a < b"
  then have le: "a div k \<le> b div k" by (simp add: div_le_mono)
  show "a div k < b div k \<or> a div k = b div k \<and> a mod k < b mod k"
  proof (cases "a div k = b div k")
    case True
    have "k * (a div k) + a mod k = a" and "k * (b div k) + b mod k = b"
      by (rule mult_div_mod_eq)+
    with True ab have "a mod k < b mod k" by (metis nat_add_left_cancel_less)
    with True show ?thesis by simp
  next
    case False
    with le show ?thesis by simp
  qed
qed

lemma div_mod_eq_iff:
  fixes a b k :: nat
  shows "a div k = b div k \<and> a mod k = b mod k \<longleftrightarrow> a = b"
  by (metis div_mult_mod_eq)

lemma dec2_less: "a < 100 \<Longrightarrow> b < 100 \<Longrightarrow> dec2 a < dec2 b \<longleftrightarrow> a < b"
proof -
  assume a: "a < 100" and b: "b < 100"
  have d: "a div 10 < 10" "b div 10 < 10" "a mod 10 < 10" "b mod 10 < 10" using a b by simp_all
  have "dec2 a < dec2 b \<longleftrightarrow>
          a div 10 < b div 10 \<or> a div 10 = b div 10 \<and> a mod 10 < b mod 10"
    using d by (simp add: dec2_def digit_char_less digit_char_eq)
  then show ?thesis by (simp only: lex_div_mod)
qed

lemma dec2_eq: "a < 100 \<Longrightarrow> b < 100 \<Longrightarrow> dec2 a = dec2 b \<longleftrightarrow> a = b"
proof -
  assume a: "a < 100" and b: "b < 100"
  have d: "a div 10 < 10" "b div 10 < 10" "a mod 10 < 10" "b mod 10 < 10" using a b by simp_all
  have "dec2 a = dec2 b \<longleftrightarrow> a div 10 = b div 10 \<and> a mod 10 = b mod 10"
    using d by (simp add: dec2_def digit_char_eq)
  then show ?thesis by (simp only: div_mod_eq_iff)
qed

lemma length_dec2 [simp]: "length (dec2 n) = 2"
  by (simp add: dec2_def)

lemma length_dec4 [simp]: "length (dec4 n) = 4"
  by (simp add: dec4_def)

lemma dec4_split: "dec4 n = dec2 (n div 100) @ dec2 (n mod 100)"
proof -
  have "n div 100 div 10 = n div 1000" by (simp add: div_mult2_eq[symmetric])
  moreover have "n mod 100 div 10 = n div 10 mod 10"
  proof -
    have "n mod (10 * 10) = 10 * (n div 10 mod 10) + n mod 10" by (rule mod_mult2_eq)
    then have "n mod 100 = 10 * (n div 10 mod 10) + n mod 10" by simp
    then show ?thesis by simp
  qed
  moreover have "n mod 100 mod 10 = n mod 10" by (simp add: mod_mod_cancel)
  ultimately show ?thesis by (simp add: dec4_def dec2_def)
qed

lemma append_less_same_length:
  "length a = length b \<Longrightarrow> (a @ x < b @ y) \<longleftrightarrow> (a < b \<or> a = b \<and> x < (y :: 'a::linorder list))"
  by (induction a b rule: list_induct2) auto

lemma dec4_less: "a < 10000 \<Longrightarrow> b < 10000 \<Longrightarrow> dec4 a < dec4 b \<longleftrightarrow> a < b"
proof -
  assume a: "a < 10000" and b: "b < 10000"
  have d: "a div 100 < 100" "b div 100 < 100" "a mod 100 < 100" "b mod 100 < 100"
    using a b by simp_all
  have "dec4 a < dec4 b \<longleftrightarrow>
          a div 100 < b div 100 \<or> a div 100 = b div 100 \<and> a mod 100 < b mod 100"
    using d by (simp add: dec4_split append_less_same_length dec2_less dec2_eq)
  then show ?thesis by (simp only: lex_div_mod)
qed

lemma dec4_eq: "a < 10000 \<Longrightarrow> b < 10000 \<Longrightarrow> dec4 a = dec4 b \<longleftrightarrow> a = b"
proof -
  assume a: "a < 10000" and b: "b < 10000"
  have d: "a div 100 < 100" "b div 100 < 100" "a mod 100 < 100" "b mod 100 < 100"
    using a b by simp_all
  have "dec4 a = dec4 b \<longleftrightarrow> a div 100 = b div 100 \<and> a mod 100 = b mod 100"
    using d by (simp add: dec4_split dec2_eq)
  then show ?thesis by (simp only: div_mod_eq_iff)
qed


lemma days_in_month_le: "days_in_month y m \<le> 31"
  by (simp add: days_in_month_def)

lemma valid_date_bounds:
  "valid_date d \<Longrightarrow> year d < 10000 \<and> month d < 100 \<and> day d < 100"
  using days_in_month_le [of "year d" "month d"] by (simp add: valid_date_def)

lemma isoformat_valid:
  "valid_date d \<Longrightarrow>
     isoformat d = dec4 (year d) @ CHR ''-'' # dec2 (month d) @ CHR ''-'' # dec2 (day d)"
  by (simp add: isoformat_def zero_pad_4 zero_pad_2 valid_date_bounds)

lemma isoformat_less:
  assumes "valid_date d" and "valid_date e"
  shows "isoformat d < isoformat e \<longleftrightarrow> date_key d < date_key e"
proof -
  note b = valid_date_bounds [OF assms(1)] valid_date_bounds [OF assms(2)]
  have "isoformat d < isoformat e \<longleftrightarrow>
          year d < year e \<or> year d = year e \<and>
            (month d < month e \<or> month d = month e \<and> day d < day e)"
    using b
    by (simp add: isoformat_valid assms append_less_same_length dec4_less dec4_eq
        dec2_less dec2_eq)
  also have "\<dots> \<longleftrightarrow> date_key d < date_key e"
    by (auto simp: date_key_def)
  finally show ?thesis .
qed

lemma isoformat_inj:
  assumes "valid_date d" and "valid_date e"
  shows "isoformat d = isoformat e \<longleftrightarrow> d = e"
proof -
  note b = valid_date_bounds [OF assms(1)] valid_date_bounds [OF assms(2)]
  have "isoformat d = isoformat e \<longleftrightarrow>
          year d = year e \<and> month d = month e \<and> day d = day e"
    using b by (simp add: isoformat_valid assms dec4_eq dec2_eq)
  then show ?thesis by auto
qed


lemma number_dec2: "n < 100 \<Longrightarrow> number (dec2 n) = Some n"
proof -
  assume n: "n < 100"
  then have d: "n div 10 < 10" "n mod 10 < 10" by simp_all
  show ?thesis using d
    by (simp add: number_def dec2_def is_digit_digit_char of_char_digit_char)
qed

lemma number_dec4: "n < 10000 \<Longrightarrow> number (dec4 n) = Some n"
proof -
  assume n: "n < 10000"
  then have d: "n div 1000 < 10" "n div 100 mod 10 < 10" "n div 10 mod 10 < 10" "n mod 10 < 10"
    by simp_all
  have 1: "10 * (n div 1000) + n div 100 mod 10 = n div 100"
    using mult_div_mod_eq [of 10 "n div 100"] by (simp add: div_mult2_eq[symmetric])
  have 2: "10 * (n div 100) + n div 10 mod 10 = n div 10"
    using mult_div_mod_eq [of 10 "n div 10"] by (simp add: div_mult2_eq[symmetric])
  have 3: "10 * (n div 10) + n mod 10 = n"
    by (rule mult_div_mod_eq)
  have "number (dec4 n) =
          Some (10 * (10 * (10 * (n div 1000) + n div 100 mod 10) + n div 10 mod 10) + n mod 10)"
    using d by (simp add: number_def dec4_def is_digit_digit_char of_char_digit_char)
  then show ?thesis by (simp only: 1 2 3)
qed

lemma parse_date_isoformat: "valid_date d \<Longrightarrow> parse_date (isoformat d) = Some d"
proof -
  assume v: "valid_date d"
  let ?s = "isoformat d"
  have s: "?s = dec4 (year d) @ CHR ''-'' # dec2 (month d) @ CHR ''-'' # dec2 (day d)"
    using v by (rule isoformat_valid)
  have b: "year d < 10000" "month d < 100" "day d < 100"
    using valid_date_bounds [OF v] by simp_all
  have l: "length ?s = 10" by (simp add: s)
  have h: "?s ! 4 = CHR ''-''" "?s ! 7 = CHR ''-''"
    by (simp_all add: s nth_append dec2_def nth_Cons')
  have t: "take 4 ?s = dec4 (year d)" "take 2 (drop 5 ?s) = dec2 (month d)"
          "drop 8 ?s = dec2 (day d)"
    by (simp_all add: s dec2_def dec4_def)
  have r: "\<lparr>year = year d, month = month d, day = day d\<rparr> = d" by simp
  have "parse_date ?s =
          (if valid_date \<lparr>year = year d, month = month d, day = day d\<rparr>
           then Some \<lparr>year = year d, month = month d, day = day d\<rparr> else None)"
    unfolding parse_date_def by (simp only: l h t number_dec4 number_dec2 b) simp
  with v show ?thesis by (simp only: r) simp
qed

lemma str_items_map_JStr: "str_items (map JStr xs) = Some xs"
  by (induction xs) (simp_all add: str_field_def)

lemma Task_of_model_dump: "valid_date (due t) \<Longrightarrow> Task_of (model_dump t) = Inr t"
  by (simp add: model_dump_def validate_fields_def required_def optional_def int_field_def
      str_field_def bool_field_def date_field_def str_list_field_def parse_date_isoformat
      str_items_map_JStr)


subsection \<open>What an accepted record holds\<close>

lemma digit_char_of_char: "is_digit c \<Longrightarrow> digit_char (of_char c - 48) = c"
  by (simp add: is_digit_def digit_char_def)

lemma digit_value_less: "is_digit c \<Longrightarrow> (of_char c :: nat) - 48 < 10"
  unfolding is_digit_def by linarith

lemma div_mod_10: "y < 10 \<Longrightarrow> (10 * x + y) div 10 = (x::nat) \<and> (10 * x + y) mod 10 = y"
  by simp

lemma number_two:
  assumes "number [a, b] = Some n"
  shows "[a, b] = dec2 n \<and> n < 100"
proof -
  let ?x = "(of_char a :: nat) - 48" and ?y = "(of_char b :: nat) - 48"
  from assms have d: "is_digit a" "is_digit b" and n: "n = 10 * ?x + ?y"
    by (auto simp: number_def split: if_splits)
  have x: "?x < 10" and y: "?y < 10" using d by (simp_all add: digit_value_less)
  have "n div 10 = ?x" "n mod 10 = ?y" using div_mod_10 [OF y, of ?x] by (simp_all add: n)
  then have "dec2 n = [a, b]" using d by (simp add: dec2_def digit_char_of_char)
  moreover have "n < 100" using x y by (simp add: n)
  ultimately show ?thesis by simp
qed

lemma number_four:
  assumes "number [a, b, c, e] = Some n"
  shows "[a, b, c, e] = dec4 n \<and> n < 10000"
proof -
  let ?x1 = "(of_char a :: nat) - 48" and ?x2 = "(of_char b :: nat) - 48"
  let ?x3 = "(of_char c :: nat) - 48" and ?x4 = "(of_char e :: nat) - 48"
  let ?m2 = "10 * ?x1 + ?x2"
  let ?m3 = "10 * ?m2 + ?x3"
  from assms have d: "is_digit a" "is_digit b" "is_digit c" "is_digit e"
    and n: "n = 10 * ?m3 + ?x4"
    by (auto simp: number_def split: if_splits)
  have l: "?x1 < 10" "?x2 < 10" "?x3 < 10" "?x4 < 10" using d by (simp_all add: digit_value_less)
  have n10: "n div 10 = ?m3" and d4: "n mod 10 = ?x4"
    using div_mod_10 [OF l(4), of ?m3] by (simp_all only: n)
  have m3: "?m3 div 10 = ?m2" and d3: "?m3 mod 10 = ?x3"
    using div_mod_10 [OF l(3), of ?m2] by simp_all
  have m2: "?m2 div 10 = ?x1" and d2: "?m2 mod 10 = ?x2"
    using div_mod_10 [OF l(2), of ?x1] by simp_all
  have n100: "n div 100 = ?m2"
  proof -
    have "n div 100 = n div 10 div 10" by (simp add: div_mult2_eq[symmetric])
    then show ?thesis by (simp only: n10 m3)
  qed
  have n1000: "n div 1000 = ?x1"
  proof -
    have "n div 1000 = n div 100 div 10" by (simp add: div_mult2_eq[symmetric])
    then show ?thesis by (simp only: n100 m2)
  qed
  have "dec4 n = [digit_char ?x1, digit_char ?x2, digit_char ?x3, digit_char ?x4]"
    unfolding dec4_def by (simp only: n1000 n100 n10 d2 d3 d4)
  then have "dec4 n = [a, b, c, e]" using d by (simp add: digit_char_of_char)
  moreover have "n < 10000" using l by (simp add: n)
  ultimately show ?thesis by simp
qed

lemma length_ten:
  assumes "length s = 10"
  obtains a b c d e f g h i j where "s = [a, b, c, d, e, f, g, h, i, j]"
proof -
  from assms have "length s = Suc (Suc (Suc (Suc (Suc (Suc (Suc (Suc (Suc (Suc 0)))))))))"
    by simp
  then obtain a b c d e f g h i j where "s = [a, b, c, d, e, f, g, h, i, j]"
    by (auto simp: length_Suc_conv)
  then show ?thesis by (rule that)
qed

lemma parse_date_Some:
  assumes "parse_date s = Some d"
  shows "valid_date d \<and> s = isoformat d"
proof -
  from assms have len: "length s = 10"
    by (auto simp: parse_date_def split: if_splits)
  then obtain a b c e f g h i j k where s: "s = [a, b, c, e, f, g, h, i, j, k]"
    by (rule length_ten)
  from assms have hy: "f = CHR ''-''" "i = CHR ''-''"
    by (auto simp: parse_date_def s split: if_splits)
  from assms obtain y m dd where
    y: "number [a, b, c, e] = Some y" and m: "number [g, h] = Some m"
    and dd: "number [j, k] = Some dd"
    and v: "valid_date \<lparr>year = y, month = m, day = dd\<rparr>"
    and d: "d = \<lparr>year = y, month = m, day = dd\<rparr>"
    by (auto simp: parse_date_def s bind_eq_Some_conv split: if_splits)
  have vd: "valid_date d" using v d by simp
  have "isoformat d = dec4 y @ CHR ''-'' # dec2 m @ CHR ''-'' # dec2 dd"
    using isoformat_valid [OF vd] by (simp add: d)
  also have "\<dots> = s"
    using number_four [OF y] number_two [OF m] number_two [OF dd]
    by (simp add: s hy dec4_def dec2_def)
  finally show ?thesis using vd by simp
qed

lemma Task_of_InrD:
  assumes "Task_of r = Inr t"
  obtains kvs where "r = JObj kvs" and "validate_fields kvs = Some t"
  using assms by (cases r) (auto split: option.splits)

lemma bool_field_Some: "bool_field v = Some b \<longleftrightarrow> v = JBool b"
  by (cases v) (auto simp: bool_field_def)

lemma date_field_Some: "date_field v = Some d \<longleftrightarrow> (\<exists>s. v = JStr s \<and> parse_date s = Some d)"
  by (cases v) (auto simp: date_field_def)

lemma required_Some:
  "required kvs k f = Some x \<longleftrightarrow> (\<exists>v. map_of kvs k = Some v \<and> f v = Some x)"
  by (simp add: required_def bind_eq_Some_conv)

lemma validate_fields_SomeD:
  assumes "validate_fields kvs = Some t"
  shows "map_of kvs ''important'' = Some (JBool (important t))"
    and "map_of kvs ''urgent'' = Some (JBool (urgent t))"
    and "\<exists>s. map_of kvs ''due'' = Some (JStr s) \<and> parse_date s = Some (due t)"
    and "map_of kvs ''completed'' = None \<and> \<not> completed t \<or>
         map_of kvs ''completed'' = Some (JBool (completed t))"
proof -
  from assms obtain i ti de du im ur su co where
    f: "required kvs ''due'' date_field = Some du"
       "required kvs ''important'' bool_field = Some im"
       "required kvs ''urgent'' bool_field = Some ur"
       "optional kvs ''completed'' bool_field False = Some co"
    and t: "t = \<lparr>ident = i, title = ti, description = de, due = du, important = im,
             urgent = ur, subtasks = su, completed = co\<rparr>"
    unfolding validate_fields_def bind_eq_Some_conv by blast
  from f(2) show "map_of kvs ''important'' = Some (JBool (important t))"
    by (simp add: required_Some bool_field_Some t)
  from f(3) show "map_of kvs ''urgent'' = Some (JBool (urgent t))"
    by (simp add: required_Some bool_field_Some t)
  from f(1) show "\<exists>s. map_of kvs ''due'' = Some (JStr s) \<and> parse_date s = Some (due t)"
    by (auto simp: required_Some date_field_Some t)
  from f(4) show "map_of kvs ''completed'' = None \<and> \<not> completed t \<or>
         map_of kvs ''completed'' = Some (JBool (completed t))"
    by (cases "map_of kvs ''completed''")
       (simp_all add: optional_def bool_field_Some t)
qed

lemma sort_key_of_valid:
  assumes "Task_of r = Inr t"
  shows "sort_key_of r = Inr (\<not> important t, \<not> urgent t, Loaded (JStr (isoformat (due t))))"
    and "valid_date (due t)"
    and "not_completed r = Inr (\<not> completed t)"
proof -
  from assms obtain kvs where r: "r = JObj kvs" and v: "validate_fields kvs = Some t"
    by (rule Task_of_InrD)
  note d = validate_fields_SomeD [OF v]
  from d(3) obtain s where s: "map_of kvs ''due'' = Some (JStr s)"
    and p: "parse_date s = Some (due t)" by blast
  from parse_date_Some [OF p] have vd: "valid_date (due t)" and iso: "s = isoformat (due t)"
    by simp_all
  show "valid_date (due t)" by (rule vd)
  show "sort_key_of r = Inr (\<not> important t, \<not> urgent t, Loaded (JStr (isoformat (due t))))"
    by (simp add: sort_key_of_def r d(1) d(2) s iso or_default_def)
  from d(4) show "not_completed r = Inr (\<not> completed t)"
    by (auto simp: not_completed_def r or_default_def)
qed

subsection \<open>Sorting stored tasks\<close>

lemma insort_py_total:
  assumes "\<forall>y\<in>set ys. lt (k y) (k x) = Inr (f y < f x)"
  shows "insort_py lt (k x, h x) (map (\<lambda>t. (k t, h t)) ys) =
           Inr (map (\<lambda>t. (k t, h t)) (insort_key f x ys))"
  using assms by (induction ys) (auto simp: not_less)

lemma sort_py_total:
  assumes "\<forall>t\<in>set ts. \<forall>u\<in>set ts. lt (k u) (k t) = Inr (f u < f t)"
  shows "sort_py lt (map (\<lambda>t. (k t, h t)) ts) = Inr (map (\<lambda>t. (k t, h t)) (sort_key f ts))"
  using assms
proof (induction ts)
  case Nil
  show ?case by simp
next
  case (Cons t ts)
  then have "sort_py lt (map (\<lambda>t. (k t, h t)) ts) = Inr (map (\<lambda>t. (k t, h t)) (sort_key f ts))"
    by simp
  moreover have "\<forall>y\<in>set (sort_key f ts). lt (k y) (k t) = Inr (f y < f t)"
    using Cons.prems by simp
  ultimately show ?case by (simp add: insort_py_total)
qed

lemma map_err_total:
  "\<forall>t\<in>set ts. key (h t) = Inr (k t) \<Longrightarrow> map_err key (map h ts) = Inr (map k ts)"
  by (induction ts) auto

lemma sorted_py_total:
  assumes "\<forall>t\<in>set ts. key (h t) = Inr (k t)"
      and "\<forall>t\<in>set ts. \<forall>u\<in>set ts. lt (k u) (k t) = Inr (f u < f t)"
  shows "sorted_py key lt (map h ts) = Inr (map h (sort_key f ts))"
proof -
  have z: "zip (map k ts) (map h ts) = map (\<lambda>t. (k t, h t)) ts"
    by (induction ts) auto
  have a: "map_err key (map h ts) = Inr (map k ts)"
    using assms(1) by (rule map_err_total)
  have b: "sort_py lt (map (\<lambda>t. (k t, h t)) ts) =
             Inr (map (\<lambda>t. (k t, h t)) (sort_key f ts))"
    using assms(2) by (rule sort_py_total)
  show ?thesis by (simp add: sorted_py_def a z b comp_def)
qed

lemma sort_key_of_model_dump:
  "sort_key_of (model_dump t) =
     Inr (\<not> important t, \<not> urgent t, Loaded (JStr (isoformat (due t))))"
  by (simp add: sort_key_of_def model_dump_def or_default_def)

lemma tuple_lt_dumped:
  assumes "valid_date (due t)" and "valid_date (due u)"
  shows "tuple_lt (\<not> important u, \<not> urgent u, Loaded (JStr (isoformat (due u))))
                  (\<not> important t, \<not> urgent t, Loaded (JStr (isoformat (due t))))
         = Inr (prio_key u < prio_key t)"
  using isoformat_less [OF assms(2) assms(1)] isoformat_inj [OF assms(2) assms(1)]
  by (auto simp: prio_key_def)

lemma filter_not_completed_dumped:
  "filter_err not_completed (map model_dump ts) =
     Inr (map model_dump (filter (\<lambda>t. \<not> completed t) ts))"
  by (induction ts) (auto simp: not_completed_def model_dump_def or_default_def)

lemma map_Task_of_dumped:
  "\<forall>t\<in>set ts. valid_date (due t) \<Longrightarrow> map_err Task_of (map model_dump ts) = Inr ts"
  by (induction ts) (auto simp: Task_of_model_dump)

lemma sorted_dumped:
  assumes "\<forall>t\<in>set ts. valid_date (due t)"
  shows "sorted_py sort_key_of tuple_lt (map model_dump ts) =
           Inr (map model_dump (sort_key prio_key ts))"
proof -
  let ?k = "\<lambda>t. (\<not> important t, \<not> urgent t, Loaded (JStr (isoformat (due t))))"
  have 1: "\<forall>t\<in>set ts. sort_key_of (model_dump t) = Inr (?k t)"
    by (simp add: sort_key_of_model_dump)
  have 2: "\<forall>t\<in>set ts. \<forall>u\<in>set ts. tuple_lt (?k u) (?k t) = Inr (prio_key u < prio_key t)"
    using assms tuple_lt_dumped by blast
  show ?thesis
    using sorted_py_total [where key = sort_key_of and h = model_dump and k = ?k
        and lt = tuple_lt and f = prio_key, OF 1 2] .
qed

lemma prio_key_le: "prio_key a \<le> prio_key b \<longleftrightarrow> eisenhower_le a b"
  by (cases "important a"; cases "urgent a"; cases "important b"; cases "urgent b")
     (auto simp: prio_key_def eisenhower_le_def quadrant_def)

lemma sorted_eisenhower: "sorted_wrt eisenhower_le (sort_key prio_key ts)"
proof -
  have "sorted (map prio_key (sort_key prio_key ts))" by (rule sorted_sort_key)
  then show ?thesis by (simp add: sorted_wrt_map prio_key_le)
qed


lemma map_err_InrD:
  "map_err f xs = Inr ys \<Longrightarrow>
     (\<forall>x\<in>set xs. f x = Inr (projr (f x))) \<and> ys = map (\<lambda>x. projr (f x)) xs"
  by (induction xs arbitrary: ys) (auto split: sum.splits)

lemma map_err_pointwise:
  "\<forall>x\<in>set xs. f x = Inr (g x) \<Longrightarrow> map_err f xs = Inr (map g xs)"
  by (induction xs) auto

lemma filter_err_pointwise:
  "\<forall>x\<in>set xs. p x = Inr (q x) \<Longrightarrow> filter_err p xs = Inr (filter q xs)"
  by (induction xs) auto

lemma map_insort_key:
  "map g (insort_key (\<lambda>x. f (g x)) a xs) = insort_key f (g a) (map g xs)"
  by (induction xs) auto

lemma map_sort_key:
  "map g (sort_key (\<lambda>x. f (g x)) xs) = sort_key f (map g xs)"
  by (induction xs) (auto simp: map_insort_key)

lemma sorted_valid:
  assumes "\<forall>r\<in>set rs. Task_of r = Inr (g r)"
  shows "sorted_py sort_key_of tuple_lt rs = Inr (sort_key (\<lambda>r. prio_key (g r)) rs)"
proof -
  let ?k = "\<lambda>r. (\<not> important (g r), \<not> urgent (g r), Loaded (JStr (isoformat (due (g r)))))"
  have 1: "\<forall>r\<in>set rs. sort_key_of ((\<lambda>r. r) r) = Inr (?k r)"
    using assms sort_key_of_valid(1) by blast
  have v: "\<forall>r\<in>set rs. valid_date (due (g r))"
    using assms sort_key_of_valid(2) by blast
  have 2: "\<forall>t\<in>set rs. \<forall>u\<in>set rs. tuple_lt (?k u) (?k t) = Inr (prio_key (g u) < prio_key (g t))"
    using v tuple_lt_dumped by blast
  have "sorted_py sort_key_of tuple_lt (map (\<lambda>r. r) rs) =
          Inr (map (\<lambda>r. r) (sort_key (\<lambda>r. prio_key (g r)) rs))"
    using sorted_py_total [where key = sort_key_of and h = "\<lambda>r. r" and k = ?k
        and lt = tuple_lt and f = "\<lambda>r. prio_key (g r)", OF 1 2] .
  then show ?thesis by simp
qed

lemma prioritise_tasks_valid:
  assumes "load_tasks s = Inr raw"
      and "map_err Task_of raw = Inr ts"
  shows "prioritise_tasks s = (Inr (sort_key prio_key ts), s)"
proof -
  let ?g = "\<lambda>r. projr (Task_of r)"
  from map_err_InrD [OF assms(2)]
  have p: "\<forall>r\<in>set raw. Task_of r = Inr (?g r)" and ts: "ts = map ?g raw" by simp_all
  have a: "sorted_py sort_key_of tuple_lt raw = Inr (sort_key (\<lambda>r. prio_key (?g r)) raw)"
    using p by (rule sorted_valid)
  have "\<forall>r\<in>set (sort_key (\<lambda>r. prio_key (?g r)) raw). Task_of r = Inr (?g r)"
    using p by simp
  then have b: "map_err Task_of (sort_key (\<lambda>r. prio_key (?g r)) raw) =
                  Inr (map ?g (sort_key (\<lambda>r. prio_key (?g r)) raw))"
    by (rule map_err_pointwise)
  have c: "map ?g (sort_key (\<lambda>r. prio_key (?g r)) raw) = sort_key prio_key ts"
    unfolding ts by (rule map_sort_key)
  show ?thesis
    unfolding prioritise_tasks_def by (simp only: assms(1) a b c sum.case)
qed

lemma in_top_raw:
  "r \<in> set (take n (sort_key f (filter P rs))) \<Longrightarrow> r \<in> set rs"
  by (auto dest: in_set_takeD)

lemma recommend_valid:
  assumes "load_tasks s = Inr raw"
      and "map_err Task_of raw = Inr ts"
  shows "recommend_tasks_for_today today s =
           (Inr (take 5 (sort_key prio_key (filter (\<lambda>t. \<not> completed t) ts))), s)"
proof -
  let ?g = "\<lambda>r. projr (Task_of r)"
  let ?q = "\<lambda>r. \<not> completed (?g r)"
  let ?f = "\<lambda>r. prio_key (?g r)"
  let ?cands = "filter ?q raw"
  from map_err_InrD [OF assms(2)]
  have p: "\<forall>r\<in>set raw. Task_of r = Inr (?g r)" and ts: "ts = map ?g raw" by simp_all
  have "\<forall>r\<in>set raw. not_completed r = Inr (?q r)"
    using p sort_key_of_valid(3) by blast
  then have a: "filter_err not_completed raw = Inr ?cands"
    by (rule filter_err_pointwise)
  have pc: "\<forall>r\<in>set ?cands. Task_of r = Inr (?g r)" using p by simp
  then have b: "sorted_py sort_key_of tuple_lt ?cands = Inr (sort_key ?f ?cands)"
    by (rule sorted_valid)
  have "\<forall>r\<in>set (take 5 (sort_key ?f ?cands)). Task_of r = Inr (?g r)"
  proof
    fix r
    assume "r \<in> set (take 5 (sort_key ?f ?cands))"
    then have "r \<in> set raw" by (rule in_top_raw)
    with p show "Task_of r = Inr (?g r)" by simp
  qed
  then have c: "map_err Task_of (take 5 (sort_key ?f ?cands)) =
                  Inr (map ?g (take 5 (sort_key ?f ?cands)))"
    by (rule map_err_pointwise)
  have "map ?g (take 5 (sort_key ?f ?cands)) = take 5 (map ?g (sort_key ?f ?cands))"
    by (simp add: take_map)
  also have "map ?g (sort_key ?f ?cands) = sort_key prio_key (map ?g ?cands)"
    by (rule map_sort_key)
  also have "map ?g ?cands = filter (\<lambda>t. \<not> completed t) ts"
    unfolding ts by (simp add: filter_map comp_def)
  finally have d: "map ?g (take 5 (sort_key ?f ?cands)) =
                     take 5 (sort_key prio_key (filter (\<lambda>t. \<not> completed t) ts))" .
  show ?thesis
    unfolding recommend_tasks_for_today_def by (simp only: assms(1) a b c d sum.case)
qed

lemma in_top: "r \<in> set (take n (sort_key f (filter P ts))) \<Longrightarrow> r \<in> set ts \<and> P r"
  by (auto dest: in_set_takeD)

lemma valid_tasks_dates:
  assumes "map_err Task_of raw = Inr ts"
  shows "\<forall>t\<in>set ts. valid_date (due t)"
proof -
  from map_err_InrD [OF assms]
  have p: "\<forall>r\<in>set raw. Task_of r = Inr (projr (Task_of r))"
    and ts: "ts = map (\<lambda>r. projr (Task_of r)) raw" by simp_all
  show ?thesis
    unfolding ts using p sort_key_of_valid(2) by auto
qed

text \<open>
  C1: when the stored records are tasks \<open>ts\<close> (dicts whose fields have the declared types,
  the due date as an ISO string: \<open>Task_of\<close> accepts each), \<open>prioritise_tasks\<close> returns
  exactly those tasks (the same multiset), ordered by quadrant (important and urgent,
  then important only, then urgent only, then neither) and by ascending due date within
  a quadrant: it is the stable sort of \<open>ts\<close> by \<open>prio_key\<close>.
\<close>

theorem prioritise_tasks_eisenhower_order:
  assumes "load_tasks s = Inr raw"
      and "map_err Task_of raw = Inr ts"
  shows "prioritise_tasks s = (Inr (sort_key prio_key ts), s) \<and>
         mset (sort_key prio_key ts) = mset ts \<and>
         sorted_wrt eisenhower_le (sort_key prio_key ts)"
  using prioritise_tasks_valid [OF assms] by (simp add: sorted_eisenhower)

lemma seven_valid: "\<forall>t\<in>set seven_tasks. valid_date (due t)"
  by (simp add: seven_tasks_def task_late_def task_neither_def task_urgent_def task_done_def
      task_important_def task_both_def task_both_early_def day_of_def valid_date_def
      days_in_month_def is_leap_def)

lemma seven_loaded: "load_tasks seven_store = Inr (map model_dump seven_tasks)"
  by (simp add: seven_store_def)

lemma seven_stored: "map_err Task_of (map model_dump seven_tasks) = Inr seven_tasks"
  using seven_valid by (rule map_Task_of_dumped)

theorem prioritise_tasks_eisenhower_order_witness:
  "prioritise_tasks seven_store =
     (Inr [task_done, task_both_early, task_both, task_important, task_urgent, task_neither,
           task_late], seven_store)"
proof -
  have 3: "sort_key prio_key seven_tasks =
             [task_done, task_both_early, task_both, task_important, task_urgent, task_neither,
              task_late]" by code_simp
  from prioritise_tasks_eisenhower_order [OF seven_loaded seven_stored]
  have "prioritise_tasks seven_store = (Inr (sort_key prio_key seven_tasks), seven_store)"
    by (rule conjunct1)
  then show ?thesis by (simp only: 3)
qed

text \<open>
  C3: when the stored records are tasks \<open>ts\<close>, \<open>recommend_tasks_for_today\<close> returns
  the first five of the tasks that are not completed, in the order \<open>prioritise_tasks\<close>
  gives to those tasks: at most five, none completed. The date \<open>today\<close> does not occur
  in the result: no task is left out for its due date.
\<close>

theorem recommend_tasks_top_five:
  assumes "load_tasks s = Inr raw"
      and "map_err Task_of raw = Inr ts"
  shows "recommend_tasks_for_today today s =
           (Inr (take 5 (sort_key prio_key (filter (\<lambda>t. \<not> completed t) ts))), s) \<and>
         length (take 5 (sort_key prio_key (filter (\<lambda>t. \<not> completed t) ts))) \<le> 5 \<and>
         (\<forall>r\<in>set (take 5 (sort_key prio_key (filter (\<lambda>t. \<not> completed t) ts))). \<not> completed r) \<and>
         fst (prioritise_tasks (save_tasks (map model_dump (filter (\<lambda>t. \<not> completed t) ts)) s)) =
           Inr (sort_key prio_key (filter (\<lambda>t. \<not> completed t) ts))"
proof -
  let ?open = "filter (\<lambda>t. \<not> completed t) ts"
  let ?top = "take 5 (sort_key prio_key ?open)"
  have 1: "recommend_tasks_for_today today s = (Inr ?top, s)"
    using assms by (rule recommend_valid)
  have 2: "length ?top \<le> 5" by simp
  have 3: "\<forall>r\<in>set ?top. \<not> completed r"
  proof
    fix r
    assume "r \<in> set ?top"
    then show "\<not> completed r" by (rule in_top [THEN conjunct2])
  qed
  have "\<forall>t\<in>set ?open. valid_date (due t)"
    using valid_tasks_dates [OF assms(2)] by simp
  then have v: "map_err Task_of (map model_dump ?open) = Inr ?open"
    by (rule map_Task_of_dumped)
  have l: "load_tasks (save_tasks (map model_dump ?open) s) = Inr (map model_dump ?open)"
    by simp
  have "prioritise_tasks (save_tasks (map model_dump ?open) s) =
          (Inr (sort_key prio_key ?open), save_tasks (map model_dump ?open) s)"
    using l v by (rule prioritise_tasks_valid)
  then have 4: "fst (prioritise_tasks (save_tasks (map model_dump ?open) s)) =
                  Inr (sort_key prio_key ?open)"
    by simp
  from 1 2 3 4 show ?thesis by blast
qed

theorem recommend_tasks_top_five_witness:
  "recommend_tasks_for_today (day_of 2024 3 1) seven_store =
     (Inr [task_both_early, task_both, task_important, task_urgent, task_neither], seven_store)"
proof -
  have 3: "take 5 (sort_key prio_key (filter (\<lambda>t. \<not> completed t) seven_tasks)) =
             [task_both_early, task_both, task_important, task_urgent, task_neither]"
    by code_simp
  from recommend_tasks_top_five [OF seven_loaded seven_stored]
  have "recommend_tasks_for_today (day_of 2024 3 1) seven_store =
          (Inr (take 5 (sort_key prio_key (filter (\<lambda>t. \<not> completed t) seven_tasks))), seven_store)"
    by (rule conjunct1)
  then show ?thesis by (simp only: 3)
qed

subsection \<open>Adding a task and listing it\<close>

lemma map_err_snoc:
  "map_err f xs = Inr ys \<Longrightarrow> f x = Inr y \<Longrightarrow> map_err f (xs @ [x]) = Inr (ys @ [y])"
  by (induction xs arbitrary: ys) (auto split: sum.splits)

lemma list_tasks_Inr:
  "fst (list_tasks s) = Inr old \<Longrightarrow> \<exists>raw. load_tasks s = Inr raw \<and> map_err Task_of raw = Inr old"
  by (cases "load_tasks s") (simp_all add: list_tasks_def)

text \<open>
  C9: when \<open>list_tasks\<close> returns \<open>old\<close>, adding a task with a date of the calendar returns
  the task, and \<open>list_tasks\<close> then returns \<open>old\<close> followed by that same task, every field
  as it was passed (no subtasks given is the empty list); the due date is written as its
  ISO string and read back as the same date.
\<close>

theorem add_task_then_list_tasks:
  assumes "valid_date du"
      and "fst (list_tasks s) = Inr old"
  shows "fst (add_task i ti de du im ur su co s) =
           Inr \<lparr>ident = i, title = ti, description = de, due = du, important = im, urgent = ur,
                subtasks = (case su of None \<Rightarrow> [] | Some xs \<Rightarrow> xs), completed = co\<rparr> \<and>
         fst (list_tasks (snd (add_task i ti de du im ur su co s))) =
           Inr (old @ [\<lparr>ident = i, title = ti, description = de, due = du, important = im,
                        urgent = ur, subtasks = (case su of None \<Rightarrow> [] | Some xs \<Rightarrow> xs),
                        completed = co\<rparr>]) \<and>
         parse_date (isoformat du) = Some du"
proof -
  let ?new = "\<lparr>ident = i, title = ti, description = de, due = du, important = im, urgent = ur,
                subtasks = (case su of None \<Rightarrow> [] | Some xs \<Rightarrow> xs), completed = co\<rparr>"
  from list_tasks_Inr [OF assms(2)] obtain raw
    where raw: "load_tasks s = Inr raw" and old: "map_err Task_of raw = Inr old"
    by blast
  have "valid_date (due ?new)" using assms(1) by simp
  then have "Task_of (model_dump ?new) = Inr ?new"
    by (rule Task_of_model_dump)
  with old have m: "map_err Task_of (raw @ [model_dump ?new]) = Inr (old @ [?new])"
    by (rule map_err_snoc)
  have a: "add_task i ti de du im ur su co s = (Inr ?new, save_tasks (raw @ [model_dump ?new]) s)"
    by (simp add: add_task_def raw Let_def)
  have 1: "fst (add_task i ti de du im ur su co s) = Inr ?new"
    by (simp only: a fst_conv)
  have 2: "fst (list_tasks (snd (add_task i ti de du im ur su co s))) = Inr (old @ [?new])"
    by (simp only: a snd_conv list_tasks_def load_tasks_save_tasks sum.case m fst_conv)
  have 3: "parse_date (isoformat du) = Some du"
    using assms(1) by (rule parse_date_isoformat)
  from 1 2 3 show ?thesis by blast
qed

theorem add_task_then_list_tasks_witness:
  "fst (list_tasks (snd (add_task 9 ''Read'' ''Read a book.'' (day_of 2025 2 28) False True None False
          one_store))) =
     Inr [task_both,
          \<lparr>ident = 9, title = ''Read'', description = ''Read a book.'', due = day_of 2025 2 28,
           important = False, urgent = True, subtasks = [], completed = False\<rparr>]"
proof -
  have 1: "valid_date (day_of 2025 2 28)"
    by (simp add: day_of_def valid_date_def days_in_month_def is_leap_def)
  have "valid_date (due task_both)"
    by (simp add: task_both_def day_of_def valid_date_def days_in_month_def is_leap_def)
  then have "Task_of (model_dump task_both) = Inr task_both"
    by (rule Task_of_model_dump)
  then have 2: "fst (list_tasks one_store) = Inr [task_both]"
    by (simp add: list_tasks_def one_store_def)
  from add_task_then_list_tasks [OF 1 2, of 9 "''Read''" "''Read a book.''" False True None False]
  have "fst (list_tasks (snd (add_task 9 ''Read'' ''Read a book.'' (day_of 2025 2 28) False True
          None False one_store))) =
        Inr ([task_both] @
          [\<lparr>ident = 9, title = ''Read'', description = ''Read a book.'', due = day_of 2025 2 28,
            important = False, urgent = True,
            subtasks = (case None of None \<Rightarrow> [] | Some xs \<Rightarrow> xs), completed = False\<rparr>])"
    by (rule conjunct2 [THEN conjunct1])
  then show ?thesis by (simp only: option.case append_Cons append_Nil)
qed

end
